theory Spec2Isabelle
  imports Main
begin

section \<open>Strings and integers of the Go standard library\<close>

text \<open>
  Go strings are byte sequences; they are modelled as \<open>string\<close>, a list of
  8-bit characters. The functions of this section are the small pieces of
  \<^verbatim>\<open>strings\<close>, \<^verbatim>\<open>net/textproto\<close> and \<^verbatim>\<open>strconv\<close> that
  \<^verbatim>\<open>fs.go\<close> calls; they are written after the documented behaviour of
  those packages.
\<close>

definition isASCIISpace :: "char \<Rightarrow> bool" where
  "isASCIISpace b \<longleftrightarrow> b = CHR '' '' \<or> b = CHR 0x09 \<or> b = CHR 0x0A \<or> b = CHR 0x0D"

text \<open>\<^verbatim>\<open>textproto.TrimString\<close>: drops leading, then trailing ASCII space.\<close>

definition TrimString :: "string \<Rightarrow> string" where
  "TrimString s = rev (dropWhile isASCIISpace (rev (dropWhile isASCIISpace s)))"

definition HasPrefix :: "string \<Rightarrow> string \<Rightarrow> bool" where
  "HasPrefix s p \<longleftrightarrow> take (length p) s = p"

definition HasSuffix :: "string \<Rightarrow> string \<Rightarrow> bool" where
  "HasSuffix s p \<longleftrightarrow> length p \<le> length s \<and> drop (length s - length p) s = p"

definition TrimPrefix :: "string \<Rightarrow> string \<Rightarrow> string" where
  "TrimPrefix s p = (if HasPrefix s p then drop (length p) s else s)"

definition TrimSuffix :: "string \<Rightarrow> string \<Rightarrow> string" where
  "TrimSuffix s p = (if HasSuffix s p then take (length s - length p) s else s)"

text \<open>\<^verbatim>\<open>strings.Split(s, sep)\<close> for a one-byte separator: always at least one field.\<close>

fun Split :: "string \<Rightarrow> char \<Rightarrow> string list" where
  "Split [] sep = [[]]"
| "Split (c # cs) sep =
     (if c = sep then [] # Split cs sep
      else (case Split cs sep of
              [] \<Rightarrow> [[c]]
            | f # fs \<Rightarrow> (c # f) # fs))"

text \<open>
  \<^verbatim>\<open>strings.Cut(s, sep)\<close> for a one-byte separator: the text before
  and after the first separator, and whether there is one.
\<close>

definition Cut :: "string \<Rightarrow> char \<Rightarrow> string \<times> string \<times> bool" where
  "Cut s sep =
     (if sep \<in> set s
      then (takeWhile (\<lambda>c. c \<noteq> sep) s, tl (dropWhile (\<lambda>c. c \<noteq> sep) s), True)
      else (s, [], False))"

definition isDigit :: "char \<Rightarrow> bool" where
  "isDigit c \<longleftrightarrow> (48::nat) \<le> of_char c \<and> of_char c \<le> (57::nat)"

definition digitVal :: "char \<Rightarrow> int" where
  "digitVal c = int (of_char c) - 48"

definition digitsVal :: "string \<Rightarrow> int" where
  "digitsVal s = foldl (\<lambda>a c. 10 * a + digitVal c) 0 s"

text \<open>
  \<^verbatim>\<open>strconv.ParseInt(s, 10, 64)\<close>. The callers use the number only when
  the error is nil, so the result is an option: \<open>None\<close> stands for a syntax
  error (empty text, a sign alone, a byte that is no decimal digit) and for a
  range error (the number does not fit a signed 64-bit integer).
\<close>

definition ParseInt :: "string \<Rightarrow> int option" where
  "ParseInt s =
     (if s = [] then None
      else
        let neg = (hd s = CHR ''-'');
            s1 = (if hd s = CHR ''+'' \<or> hd s = CHR ''-'' then tl s else s)
        in if s1 = [] \<or> \<not> list_all isDigit s1 then None
           else
             let un = digitsVal s1
             in if \<not> neg \<and> 2 ^ 63 \<le> un then None
                else if neg \<and> 2 ^ 63 < un then None
                else Some (if neg then - un else un))"

text \<open>Decimal rendering, \<^verbatim>\<open>strconv.FormatInt(n, 10)\<close> and the verb \<^verbatim>\<open>%d\<close>.\<close>

definition digitChar :: "nat \<Rightarrow> char" where
  "digitChar d = ''0123456789'' ! d"

fun formatNat :: "nat \<Rightarrow> string" where
  "formatNat n = (if n < 10 then [digitChar n] else formatNat (n div 10) @ [digitChar (n mod 10)])"

declare formatNat.simps [simp del]

definition FormatInt :: "int \<Rightarrow> string" where
  "FormatInt i = (if i < 0 then CHR ''-'' # formatNat (nat (- i)) else formatNat (nat i))"

text \<open>
  Go's \<^verbatim>\<open>int64\<close> addition wraps around silently. Sizes and lengths are
  modelled as \<open>int\<close>, and every sum that can leave the 64-bit range is passed
  through \<open>wrap64\<close>, which reads the low 64 bits as two's complement.
\<close>

definition wrap64 :: "int \<Rightarrow> int" where
  "wrap64 x = (x + 2 ^ 63) mod 2 ^ 64 - 2 ^ 63"

section \<open>Requests, responses and time\<close>

text \<open>
  \<^verbatim>\<open>http.Header\<close> is a map from canonical header names to the list of
  values. \<^verbatim>\<open>Get\<close> returns the first value, and the empty string both
  for an absent header and for one whose first value is empty.
\<close>

type_synonym Header = "string \<Rightarrow> string list option"

definition Header_Get :: "Header \<Rightarrow> string \<Rightarrow> string" where
  "Header_Get h key = (case h key of None \<Rightarrow> [] | Some [] \<Rightarrow> [] | Some (v # _) \<Rightarrow> v)"

definition Header_Set :: "Header \<Rightarrow> string \<Rightarrow> string \<Rightarrow> Header" where
  "Header_Set h key v = h(key \<mapsto> [v])"

definition Header_Del :: "Header \<Rightarrow> string \<Rightarrow> Header" where
  "Header_Del h key = h(key := None)"

text \<open>
  The request fields the handlers read: the method, the headers, the URL path,
  the raw query and the lookup \<^verbatim>\<open>r.URL.Query().Get\<close>.
\<close>

record Request =
  r_Method :: string
  r_Header :: Header
  r_Path :: string
  r_RawQuery :: string
  r_Query :: "string \<Rightarrow> string"

text \<open>
  The response writer as a state: the header map, the status code once
  \<^verbatim>\<open>WriteHeader\<close> has run, and the body bytes written so far.
\<close>

record ResponseWriter =
  w_Header :: Header
  w_status :: "nat option"
  w_body :: string

definition setHeader :: "ResponseWriter \<Rightarrow> string \<Rightarrow> string \<Rightarrow> ResponseWriter" where
  "setHeader w key v = w\<lparr>w_Header := Header_Set (w_Header w) key v\<rparr>"

definition delHeader :: "ResponseWriter \<Rightarrow> string \<Rightarrow> ResponseWriter" where
  "delHeader w key = w\<lparr>w_Header := Header_Del (w_Header w) key\<rparr>"

text \<open>Only the first \<^verbatim>\<open>WriteHeader\<close> of a response takes effect.\<close>

definition WriteHeader :: "ResponseWriter \<Rightarrow> nat \<Rightarrow> ResponseWriter" where
  "WriteHeader w code = (case w_status w of None \<Rightarrow> w\<lparr>w_status := Some code\<rparr> | Some _ \<Rightarrow> w)"

text \<open>Writing body bytes before any status sends status 200 first.\<close>

definition Write :: "ResponseWriter \<Rightarrow> string \<Rightarrow> ResponseWriter" where
  "Write w bs = (WriteHeader w 200)\<lparr>w_body := w_body w @ bs\<rparr>"

text \<open>
  \<^verbatim>\<open>http.Error(w, msg, code)\<close>: a plain-text reply with the message and a
  newline. Recent versions of the library also delete the
  \<^verbatim>\<open>Content-Length\<close> header here; no statement below reads that header
  of an error reply.
\<close>

definition http_Error :: "ResponseWriter \<Rightarrow> string \<Rightarrow> nat \<Rightarrow> ResponseWriter" where
  "http_Error w msg code =
     Write
       (WriteHeader
          (setHeader (setHeader w ''Content-Type'' ''text/plain; charset=utf-8'')
             ''X-Content-Type-Options'' ''nosniff'')
          code)
       (msg @ [CHR 0x0A])"

text \<open>
  A \<^verbatim>\<open>time.Time\<close> as an instant: whole seconds since the Unix epoch and
  the nanoseconds within the second. The zero time is January 1 of year 1,
  00:00:00 UTC, which lies 62135596800 seconds before the epoch.
\<close>

record Time =
  t_sec :: int
  t_nsec :: nat

definition Time_IsZero :: "Time \<Rightarrow> bool" where
  "Time_IsZero t \<longleftrightarrow> t_sec t = - 62135596800 \<and> t_nsec t = 0"

text \<open>The zero time, the value of \<^verbatim>\<open>time.Time{}\<close>.\<close>

definition zeroTime :: Time where
  "zeroTime = \<lparr>t_sec = - 62135596800, t_nsec = 0\<rparr>"

definition Time_Equal :: "Time \<Rightarrow> Time \<Rightarrow> bool" where
  "Time_Equal t u \<longleftrightarrow> t_sec t = t_sec u \<and> t_nsec t = t_nsec u"

definition Time_Unix :: "Time \<Rightarrow> int" where
  "Time_Unix t = t_sec t"

text \<open>\<^verbatim>\<open>t.Truncate(time.Second)\<close> drops the sub-second part.\<close>

definition Time_TruncateSecond :: "Time \<Rightarrow> Time" where
  "Time_TruncateSecond t = t\<lparr>t_nsec := 0\<rparr>"

text \<open>\<^verbatim>\<open>t.Compare(u)\<close>: -1, 0 or +1.\<close>

definition Time_Compare :: "Time \<Rightarrow> Time \<Rightarrow> int" where
  "Time_Compare t u =
     (if t_sec t < t_sec u \<or> (t_sec t = t_sec u \<and> t_nsec t < t_nsec u) then - 1
      else if t_sec t = t_sec u \<and> t_nsec t = t_nsec u then 0
      else 1)"

text \<open>
  The library functions whose results the handlers only pass on are parameters
  of the model, collected in one record: \<^verbatim>\<open>http.ParseTime\<close>,
  \<^verbatim>\<open>modtime.UTC().Format(http.TimeFormat)\<close>, \<^verbatim>\<open>filepath.Ext\<close>,
  \<^verbatim>\<open>filepath.Base\<close>, \<^verbatim>\<open>strconv.Quote\<close>,
  \<^verbatim>\<open>mime.TypeByExtension\<close>, \<^verbatim>\<open>http.DetectContentType\<close>, and the
  random boundary that the n-th \<^verbatim>\<open>multipart.NewWriter\<close> of a request draws.
\<close>

record Env =
  ParseTime :: "string \<Rightarrow> Time option"
  FormatTime :: "Time \<Rightarrow> string"
  Ext :: "string \<Rightarrow> string"
  Base :: "string \<Rightarrow> string"
  Quote :: "string \<Rightarrow> string"
  TypeByExtension :: "string \<Rightarrow> string"
  DetectContentType :: "string \<Rightarrow> string"
  randomBoundary :: "nat \<Rightarrow> string"

section \<open>Entity tags and preconditions\<close>

definition etagChar :: "char \<Rightarrow> bool" where
  "etagChar c \<longleftrightarrow>
     of_char c = (0x21::nat) \<or> ((0x23::nat) \<le> of_char c \<and> of_char c \<le> (0x7E::nat))
       \<or> (0x80::nat) \<le> of_char c"

function scanETagLoop :: "string \<Rightarrow> nat \<Rightarrow> string \<times> string" where
  "scanETagLoop s i =
     (if i < length s then
        (if etagChar (s ! i) then scanETagLoop s (i + 1)
         else if s ! i = CHR 0x22 then (take (i + 1) s, drop (i + 1) s)
         else ([], []))
      else ([], []))"
  by pat_completeness auto
termination
  by (relation "measure (\<lambda>(s, i). length s - i)") auto

declare scanETagLoop.simps [simp del]

definition scanETag :: "string \<Rightarrow> string \<times> string" where
  "scanETag s0 =
     (let s = TrimString s0;
          start = (if HasPrefix s ''W/'' then 2 else 0)
      in if length (drop start s) < 2 \<or> s ! start \<noteq> CHR 0x22 then ([], [])
         else scanETagLoop s (start + 1))"

definition etagStrongMatch :: "string \<Rightarrow> string \<Rightarrow> bool" where
  "etagStrongMatch a b \<longleftrightarrow> a = b \<and> a \<noteq> [] \<and> hd a = CHR 0x22"

definition etagWeakMatch :: "string \<Rightarrow> string \<Rightarrow> bool" where
  "etagWeakMatch a b \<longleftrightarrow> TrimPrefix a ''W/'' = TrimPrefix b ''W/''"

datatype condResult = condNone | condTrue | condFalse

lemma scanETagLoop_remain:
  "fst (scanETagLoop s i) \<noteq> [] \<Longrightarrow> length (snd (scanETagLoop s i)) < length s"
proof (induction s i rule: scanETagLoop.induct)
  case (1 s i)
  show ?case
  proof (cases "i < length s \<and> etagChar (s ! i)")
    case True
    with "1.prems" have "fst (scanETagLoop s (i + 1)) \<noteq> []"
      by (subst (asm) scanETagLoop.simps) simp
    with True "1.IH" have "length (snd (scanETagLoop s (i + 1))) < length s"
      by simp
    with True show ?thesis
      by (subst scanETagLoop.simps) simp
  next
    case False
    with "1.prems" show ?thesis
      by (subst scanETagLoop.simps, subst (asm) scanETagLoop.simps) (auto split: if_splits)
  qed
qed

lemma length_TrimString: "length (TrimString s) \<le> length s"
proof -
  let ?t = "dropWhile isASCIISpace s"
  have "length (dropWhile isASCIISpace (rev ?t)) \<le> length (rev ?t)"
    by (rule length_dropWhile_le)
  moreover have "length ?t \<le> length s"
    by (rule length_dropWhile_le)
  ultimately show ?thesis
    by (simp add: TrimString_def)
qed

lemma scanETag_remain:
  assumes "fst (scanETag s) \<noteq> []"
  shows "length (snd (scanETag s)) < length s"
proof -
  let ?t = "TrimString s"
  let ?start = "if HasPrefix ?t ''W/'' then 2 else 0 :: nat"
  from assms have eq: "scanETag s = scanETagLoop ?t (?start + 1)"
    by (auto simp: scanETag_def Let_def split: if_splits)
  with assms have "length (snd (scanETagLoop ?t (?start + 1))) < length ?t"
    by (intro scanETagLoop_remain) simp
  with eq length_TrimString [of s] show ?thesis
    by simp
qed

text \<open>
  The loops of \<^verbatim>\<open>checkIfMatch\<close> and \<^verbatim>\<open>checkIfNoneMatch\<close> over the
  remaining header text. Each round trims the text; an empty text and a text
  that starts with no entity tag end the loop, a comma is skipped, a leading
  \<^verbatim>\<open>*\<close> decides, and so does an entity tag that matches.
\<close>

function checkIfMatchLoop :: "string \<Rightarrow> string \<Rightarrow> condResult" where
  "checkIfMatchLoop etagHeader im0 =
     (if TrimString im0 = [] then condFalse
      else if hd (TrimString im0) = CHR '','' then checkIfMatchLoop etagHeader (tl (TrimString im0))
      else if hd (TrimString im0) = CHR ''*'' then condTrue
      else if fst (scanETag (TrimString im0)) = [] then condFalse
      else if etagStrongMatch (fst (scanETag (TrimString im0))) etagHeader then condTrue
      else checkIfMatchLoop etagHeader (snd (scanETag (TrimString im0))))"
  by pat_completeness auto

termination checkIfMatchLoop
proof (relation "measure (\<lambda>(e, im). length im)")
  show "wf (measure (\<lambda>(e, im). length im))"
    by simp
next
  fix etagHeader im0 :: string
  assume "TrimString im0 \<noteq> []"
  then have "length (tl (TrimString im0)) < length (TrimString im0)"
    by (cases "TrimString im0") auto
  with length_TrimString [of im0]
  show "((etagHeader, tl (TrimString im0)), etagHeader, im0) \<in> measure (\<lambda>(e, im). length im)"
    by simp
next
  fix etagHeader im0 :: string
  assume "fst (scanETag (TrimString im0)) \<noteq> []"
  from scanETag_remain [OF this] length_TrimString [of im0]
  show "((etagHeader, snd (scanETag (TrimString im0))), etagHeader, im0)
      \<in> measure (\<lambda>(e, im). length im)"
    by simp
qed

declare checkIfMatchLoop.simps [simp del]

function checkIfNoneMatchLoop :: "string \<Rightarrow> string \<Rightarrow> condResult" where
  "checkIfNoneMatchLoop etagHeader buf0 =
     (if TrimString buf0 = [] then condTrue
      else if hd (TrimString buf0) = CHR '','' then checkIfNoneMatchLoop etagHeader (tl (TrimString buf0))
      else if hd (TrimString buf0) = CHR ''*'' then condFalse
      else if fst (scanETag (TrimString buf0)) = [] then condTrue
      else if etagWeakMatch (fst (scanETag (TrimString buf0))) etagHeader then condFalse
      else checkIfNoneMatchLoop etagHeader (snd (scanETag (TrimString buf0))))"
  by pat_completeness auto

termination checkIfNoneMatchLoop
proof (relation "measure (\<lambda>(e, buf). length buf)")
  show "wf (measure (\<lambda>(e, buf). length buf))"
    by simp
next
  fix etagHeader buf0 :: string
  assume "TrimString buf0 \<noteq> []"
  then have "length (tl (TrimString buf0)) < length (TrimString buf0)"
    by (cases "TrimString buf0") auto
  with length_TrimString [of buf0]
  show "((etagHeader, tl (TrimString buf0)), etagHeader, buf0) \<in> measure (\<lambda>(e, buf). length buf)"
    by simp
next
  fix etagHeader buf0 :: string
  assume "fst (scanETag (TrimString buf0)) \<noteq> []"
  from scanETag_remain [OF this] length_TrimString [of buf0]
  show "((etagHeader, snd (scanETag (TrimString buf0))), etagHeader, buf0)
      \<in> measure (\<lambda>(e, buf). length buf)"
    by simp
qed

declare checkIfNoneMatchLoop.simps [simp del]

definition checkIfMatch :: "ResponseWriter \<Rightarrow> Request \<Rightarrow> condResult" where
  "checkIfMatch w r =
     (let im = Header_Get (r_Header r) ''If-Match''
      in if im = [] then condNone
         else checkIfMatchLoop (Header_Get (w_Header w) ''Etag'') im)"

definition unixEpochTime :: Time where
  "unixEpochTime = \<lparr>t_sec = 0, t_nsec = 0\<rparr>"

definition isZeroTime :: "Time \<Rightarrow> bool" where
  "isZeroTime t \<longleftrightarrow> Time_IsZero t \<or> Time_Equal t unixEpochTime"

definition checkIfUnmodifiedSince :: "Env \<Rightarrow> Request \<Rightarrow> Time \<Rightarrow> condResult" where
  "checkIfUnmodifiedSince env r modtime =
     (let ius = Header_Get (r_Header r) ''If-Unmodified-Since''
      in if ius = [] \<or> isZeroTime modtime then condNone
         else (case ParseTime env ius of
                 None \<Rightarrow> condNone
               | Some t \<Rightarrow>
                   if Time_Compare (Time_TruncateSecond modtime) t \<le> 0 then condTrue
                   else condFalse))"

definition checkIfNoneMatch :: "ResponseWriter \<Rightarrow> Request \<Rightarrow> condResult" where
  "checkIfNoneMatch w r =
     (let inm = Header_Get (r_Header r) ''If-None-Match''
      in if inm = [] then condNone
         else checkIfNoneMatchLoop (Header_Get (w_Header w) ''Etag'') inm)"

definition checkIfModifiedSince :: "Env \<Rightarrow> Request \<Rightarrow> Time \<Rightarrow> condResult" where
  "checkIfModifiedSince env r modtime =
     (if r_Method r \<noteq> ''GET'' \<and> r_Method r \<noteq> ''HEAD'' then condNone
      else
        let ims = Header_Get (r_Header r) ''If-Modified-Since''
        in if ims = [] \<or> isZeroTime modtime then condNone
           else (case ParseTime env ims of
                   None \<Rightarrow> condNone
                 | Some t \<Rightarrow>
                     if Time_Compare (Time_TruncateSecond modtime) t \<le> 0 then condFalse
                     else condTrue))"

definition checkIfRange :: "Env \<Rightarrow> ResponseWriter \<Rightarrow> Request \<Rightarrow> Time \<Rightarrow> condResult" where
  "checkIfRange env w r modtime =
     (if r_Method r \<noteq> ''GET'' \<and> r_Method r \<noteq> ''HEAD'' then condNone
      else
        let ir = Header_Get (r_Header r) ''If-Range''
        in if ir = [] then condNone
           else
             let etag = fst (scanETag ir)
             in if etag \<noteq> [] then
                  (if etagStrongMatch etag (Header_Get (w_Header w) ''Etag'') then condTrue
                   else condFalse)
                else if Time_IsZero modtime then condFalse
                else (case ParseTime env ir of
                        None \<Rightarrow> condFalse
                      | Some t \<Rightarrow>
                          if Time_Unix t = Time_Unix modtime then condTrue else condFalse))"

definition setLastModified :: "Env \<Rightarrow> ResponseWriter \<Rightarrow> Time \<Rightarrow> ResponseWriter" where
  "setLastModified env w modtime =
     (if \<not> isZeroTime modtime then setHeader w ''Last-Modified'' (FormatTime env modtime)
      else w)"

definition writeNotModified :: "ResponseWriter \<Rightarrow> ResponseWriter" where
  "writeNotModified w =
     (let h = delHeader (delHeader (delHeader w ''Content-Type'') ''Content-Length'')
                ''Content-Encoding'';
          h' = (if Header_Get (w_Header h) ''Etag'' \<noteq> [] then delHeader h ''Last-Modified'' else h)
      in WriteHeader h' 304)"

text \<open>
  \<^verbatim>\<open>checkPreconditions\<close> returns the response writer after its writes,
  whether the response is done, and the \<^verbatim>\<open>Range\<close> header to honour.
\<close>

definition checkPreconditions ::
  "Env \<Rightarrow> ResponseWriter \<Rightarrow> Request \<Rightarrow> Time \<Rightarrow> ResponseWriter \<times> bool \<times> string" where
  "checkPreconditions env w r modtime =
     (let ch0 = checkIfMatch w r;
          ch = (if ch0 = condNone then checkIfUnmodifiedSince env r modtime else ch0);
          rangeHeader = Header_Get (r_Header r) ''Range'';
          rangeResult =
            (if rangeHeader \<noteq> [] \<and> checkIfRange env w r modtime = condFalse
             then (w, False, [])
             else (w, False, rangeHeader))
      in if ch = condFalse then (WriteHeader w 412, True, [])
         else (case checkIfNoneMatch w r of
                 condFalse \<Rightarrow>
                   if r_Method r = ''GET'' \<or> r_Method r = ''HEAD''
                   then (writeNotModified w, True, [])
                   else (WriteHeader w 412, True, [])
               | condNone \<Rightarrow>
                   if checkIfModifiedSince env r modtime = condFalse
                   then (writeNotModified w, True, [])
                   else rangeResult
               | condTrue \<Rightarrow> rangeResult))"

section \<open>Byte ranges\<close>

record httpRange =
  r_start :: int
  r_length :: int

datatype rangeError = errInvalidRange | errNoOverlap

definition errorText :: "rangeError \<Rightarrow> string" where
  "errorText e =
     (case e of
        errInvalidRange \<Rightarrow> ''invalid range''
      | errNoOverlap \<Rightarrow> ''invalid range: failed to overlap'')"

definition contentRange :: "httpRange \<Rightarrow> int \<Rightarrow> string" where
  "contentRange r sz =
     ''bytes '' @ FormatInt (r_start r) @ ''-'' @ FormatInt (r_start r + r_length r - 1)
       @ ''/'' @ FormatInt sz"

text \<open>
  The MIME header of a part, as the list of its lines in the order in which
  \<^verbatim>\<open>multipart.Writer.CreatePart\<close> writes them (sorted by key).
\<close>

definition mimeHeader :: "httpRange \<Rightarrow> string \<Rightarrow> int \<Rightarrow> (string \<times> string) list" where
  "mimeHeader r contentType sz =
     [(''Content-Range'', contentRange r sz), (''Content-Type'', contentType)]"

text \<open>
  One round of the loop of \<^verbatim>\<open>parseRange\<close> over the comma-separated
  fields: \<open>Inl\<close> is the early return with an error, \<open>Inr\<close> the ranges and
  the \<^verbatim>\<open>noOverlap\<close> flag after the round. The numbers it subtracts lie
  between zero and the size, so no difference leaves the 64-bit range.
\<close>

definition parseRangeSpec ::
  "string \<Rightarrow> int \<Rightarrow> httpRange list \<times> bool \<Rightarrow> rangeError + httpRange list \<times> bool" where
  "parseRangeSpec ra0 sz acc =
     (let ra = TrimString ra0
      in if ra = [] then Inr acc
         else (case Cut ra (CHR ''-'') of
            (start0, end0, ok) \<Rightarrow>
              if \<not> ok then Inl errInvalidRange
              else
                let s = TrimString start0; e = TrimString end0
                in if s = [] then
                     (if e = [] \<or> hd e = CHR ''-'' then Inl errInvalidRange
                      else (case ParseInt e of
                              None \<Rightarrow> Inl errInvalidRange
                            | Some i0 \<Rightarrow>
                                if i0 < 0 then Inl errInvalidRange
                                else
                                  let i = (if i0 > sz then sz else i0);
                                      rstart = sz - i
                                  in Inr (fst acc @ [\<lparr>r_start = rstart, r_length = sz - rstart\<rparr>],
                                          snd acc)))
                   else (case ParseInt s of
                           None \<Rightarrow> Inl errInvalidRange
                         | Some i \<Rightarrow>
                             if i < 0 then Inl errInvalidRange
                             else if i \<ge> sz then Inr (fst acc, True)
                             else if e = [] then
                               Inr (fst acc @ [\<lparr>r_start = i, r_length = sz - i\<rparr>], snd acc)
                             else (case ParseInt e of
                                     None \<Rightarrow> Inl errInvalidRange
                                   | Some j0 \<Rightarrow>
                                       if i > j0 then Inl errInvalidRange
                                       else
                                         let j = (if j0 \<ge> sz then sz - 1 else j0)
                                         in Inr (fst acc @ [\<lparr>r_start = i, r_length = j - i + 1\<rparr>],
                                                 snd acc)))))"

fun parseRangeLoop ::
  "string list \<Rightarrow> int \<Rightarrow> httpRange list \<times> bool \<Rightarrow> rangeError + httpRange list \<times> bool" where
  "parseRangeLoop [] sz acc = Inr acc"
| "parseRangeLoop (ra # ras) sz acc =
     (case parseRangeSpec ra sz acc of
        Inl e \<Rightarrow> Inl e
      | Inr acc' \<Rightarrow> parseRangeLoop ras sz acc')"

definition parseRange :: "string \<Rightarrow> int \<Rightarrow> rangeError + httpRange list" where
  "parseRange s sz =
     (if s = [] then Inr []
      else if \<not> HasPrefix s ''bytes='' then Inl errInvalidRange
      else (case parseRangeLoop (Split (drop 6 s) (CHR '','')) sz ([], False) of
              Inl e \<Rightarrow> Inl e
            | Inr (ranges, noOverlap) \<Rightarrow>
                if noOverlap \<and> ranges = [] then Inl errNoOverlap else Inr ranges))"

text \<open>
  \<^verbatim>\<open>sumRangesSize\<close> adds the lengths in an \<^verbatim>\<open>int64\<close> accumulator.
\<close>

fun sumRangesSizeLoop :: "httpRange list \<Rightarrow> int \<Rightarrow> int" where
  "sumRangesSizeLoop [] acc = acc"
| "sumRangesSizeLoop (ra # ras) acc = sumRangesSizeLoop ras (wrap64 (acc + r_length ra))"

definition sumRangesSize :: "httpRange list \<Rightarrow> int" where
  "sumRangesSize ranges = sumRangesSizeLoop ranges 0"

section \<open>Multipart framing\<close>

text \<open>
  \<^verbatim>\<open>multipart.Writer\<close>: \<^verbatim>\<open>CreatePart\<close> writes the boundary line (after
  a line break for every part but the first), the header lines and an empty
  line; \<^verbatim>\<open>Close\<close> writes the closing boundary line.
\<close>

definition CRLF :: string where
  "CRLF = [CHR 0x0D, CHR 0x0A]"

definition partHeader :: "string \<Rightarrow> bool \<Rightarrow> (string \<times> string) list \<Rightarrow> string" where
  "partHeader boundary first hdr =
     (if first then ''--'' else CRLF @ ''--'') @ boundary @ CRLF
       @ concat (map (\<lambda>(k, v). k @ '': '' @ v @ CRLF) hdr) @ CRLF"

definition closeDelimiter :: "string \<Rightarrow> string" where
  "closeDelimiter boundary = CRLF @ ''--'' @ boundary @ ''--'' @ CRLF"

text \<open>
  The loop of \<^verbatim>\<open>rangesMIMESize\<close>: \<open>w\<close> is the counting writer behind
  the multipart writer, \<open>encSize\<close> the running sum of the range lengths, and
  \<open>first\<close> tells whether the writer has no part yet. Both counters are
  \<^verbatim>\<open>int64\<close>.
\<close>

fun rangesMIMESizeLoop ::
  "string \<Rightarrow> string \<Rightarrow> int \<Rightarrow> httpRange list \<Rightarrow> bool \<Rightarrow> int \<times> int \<Rightarrow> int \<times> int" where
  "rangesMIMESizeLoop boundary contentType contentSize [] first (w, encSize) = (w, encSize)"
| "rangesMIMESizeLoop boundary contentType contentSize (ra # ras) first (w, encSize) =
     rangesMIMESizeLoop boundary contentType contentSize ras False
       (wrap64 (w + int (length (partHeader boundary first (mimeHeader ra contentType contentSize)))),
        wrap64 (encSize + r_length ra))"

definition rangesMIMESize :: "Env \<Rightarrow> httpRange list \<Rightarrow> string \<Rightarrow> int \<Rightarrow> int" where
  "rangesMIMESize env ranges contentType contentSize =
     (case rangesMIMESizeLoop (randomBoundary env 0) contentType contentSize ranges True (0, 0) of
        (w, encSize) \<Rightarrow>
          wrap64 (encSize + wrap64 (w + int (length (closeDelimiter (randomBoundary env 0))))))"

section \<open>Serving content\<close>

text \<open>
  The content is an \<^verbatim>\<open>io.ReadSeeker\<close>: its bytes, and the error text of
  \<^verbatim>\<open>Seek\<close> when the reader cannot seek. A reader that seeks accepts every
  offset that is not negative.
\<close>

record Content =
  c_data :: string
  c_seekErr :: "string option"

definition Seek :: "Content \<Rightarrow> int \<Rightarrow> string + int" where
  "Seek content off =
     (case c_seekErr content of
        Some msg \<Rightarrow> Inl msg
      | None \<Rightarrow> if off < 0 then Inl ''negative position'' else Inr off)"

text \<open>
  \<^verbatim>\<open>io.CopyN(dst, content, n)\<close> after a seek to \<open>off\<close>: the bytes that
  reach the destination. Fewer than \<open>n\<close> bytes is the error \<^verbatim>\<open>io.EOF\<close>.
\<close>

definition CopyN :: "Content \<Rightarrow> int \<Rightarrow> int \<Rightarrow> string" where
  "CopyN content off n = take (nat n) (drop (nat off) (c_data content))"

text \<open>
  The bytes that the goroutine of \<^verbatim>\<open>serveContent\<close> writes to the pipe for
  a multi-range response: for each range the part header and the bytes of the
  range, then the closing boundary. A failing seek or a short copy closes the
  pipe with the error, and nothing more is written.
\<close>

fun multipartStream ::
  "string \<Rightarrow> string \<Rightarrow> int \<Rightarrow> Content \<Rightarrow> bool \<Rightarrow> httpRange list \<Rightarrow> string" where
  "multipartStream boundary ctype sz content first [] = closeDelimiter boundary"
| "multipartStream boundary ctype sz content first (ra # ras) =
     partHeader boundary first (mimeHeader ra ctype sz)
       @ (case Seek content (r_start ra) of
            Inl msg \<Rightarrow> []
          | Inr off \<Rightarrow>
              if int (length (CopyN content off (r_length ra))) < r_length ra
              then CopyN content off (r_length ra)
              else CopyN content off (r_length ra)
                     @ multipartStream boundary ctype sz content False ras)"

declare multipartStream.simps [simp del]

text \<open>
  \<^verbatim>\<open>serveContent\<close> is written in four blocks, in the order of the
  source. The first block sets the download headers for the query
  \<^verbatim>\<open>dl=true\<close> and the \<^verbatim>\<open>Last-Modified\<close> header.
\<close>

definition serveContent_headers ::
  "Env \<Rightarrow> ResponseWriter \<Rightarrow> Request \<Rightarrow> string \<Rightarrow> Time \<Rightarrow> ResponseWriter" where
  "serveContent_headers env w r name modtime =
     setLastModified env
       (if r_Query r ''dl'' = ''true''
        then setHeader
               (setHeader w ''Content-Disposition''
                  (''attachment; filename='' @ Quote env (Base env name)))
               ''Content-Type'' ''application/octet-stream''
        else w)
       modtime"

text \<open>
  The second block finds the content type: the header when the caller has set
  it, else the type of the file extension, else the type sniffed from the
  first 512 bytes, after which the content is rewound. \<open>Inl\<close> is the
  response of the early return.
\<close>

definition serveContent_ctype ::
  "Env \<Rightarrow> ResponseWriter \<Rightarrow> string \<Rightarrow> Content \<Rightarrow> ResponseWriter + ResponseWriter \<times> string" where
  "serveContent_ctype env w name content =
     (case w_Header w ''Content-Type'' of
        None \<Rightarrow>
          if TypeByExtension env (Ext env name) = [] then
            (case Seek content 0 of
               Inl msg \<Rightarrow> Inl (http_Error w ''seeker can't seek'' 500)
             | Inr off \<Rightarrow>
                 Inr (setHeader w ''Content-Type''
                        (DetectContentType env (take 512 (c_data content))),
                      DetectContentType env (take 512 (c_data content))))
          else Inr (setHeader w ''Content-Type'' (TypeByExtension env (Ext env name)),
                    TypeByExtension env (Ext env name))
      | Some ctypes \<Rightarrow> Inr (w, (case ctypes of [] \<Rightarrow> [] | c # cs \<Rightarrow> c)))"

text \<open>
  The last block handles the \<^verbatim>\<open>Range\<close> header that the preconditions
  let through and sends the response. The bytes to send are those of the
  content from the offset of the last seek, or the bytes of the pipe.
\<close>

definition serveContent_send ::
  "Env \<Rightarrow> ResponseWriter \<Rightarrow> Request \<Rightarrow> string \<Rightarrow> int \<Rightarrow> string \<Rightarrow> Content \<Rightarrow> ResponseWriter" where
  "serveContent_send env w r ctype sz rangeReq content =
     (case (case parseRange rangeReq sz of
              Inr ranges \<Rightarrow> Inr (w, ranges)
            | Inl err \<Rightarrow>
                if err = errNoOverlap then
                  (if sz = 0 then Inr (w, [])
                   else Inl (http_Error
                               (setHeader w ''Content-Range'' (''bytes */'' @ FormatInt sz))
                               (errorText err) 416))
                else Inl (http_Error w (errorText err) 416)) of
        Inl failed \<Rightarrow> failed
      | Inr (w5, ranges0) \<Rightarrow>
          let ranges = (if sumRangesSize ranges0 > sz then [] else ranges0)
          in (case (if length ranges = 1 then
                      (case Seek content (r_start (hd ranges)) of
                         Inl msg \<Rightarrow> Inl (http_Error w5 msg 416)
                       | Inr off \<Rightarrow>
                           Inr (setHeader w5 ''Content-Range'' (contentRange (hd ranges) sz),
                                r_length (hd ranges), 206, drop (nat off) (c_data content)))
                    else if length ranges > 1 then
                      Inr (setHeader w5 ''Content-Type''
                             (''multipart/byteranges; boundary='' @ randomBoundary env 1),
                           rangesMIMESize env ranges ctype sz, 206,
                           multipartStream (randomBoundary env 1) ctype sz content True ranges)
                    else Inr (w5, sz, 200, c_data content)) of
                Inl failed \<Rightarrow> failed
              | Inr (w6, sendSize, code, sendContent) \<Rightarrow>
                  let w7 = setHeader w6 ''Accept-Ranges'' ''bytes'';
                      w8 = (if Header_Get (w_Header w7) ''Content-Encoding'' = []
                            then setHeader w7 ''Content-Length'' (FormatInt sendSize)
                            else w7);
                      w9 = WriteHeader w8 code
                  in if r_Method r \<noteq> ''HEAD''
                     then Write w9 (take (nat sendSize) sendContent)
                     else w9))"

text \<open>
  The whole function: the third block, between the content type and the
  ranges, asks the size function, given here by its result (an error text or
  the size).
\<close>

definition serveContent ::
  "Env \<Rightarrow> ResponseWriter \<Rightarrow> Request \<Rightarrow> string \<Rightarrow> Time \<Rightarrow> string + int \<Rightarrow> Content
    \<Rightarrow> ResponseWriter" where
  "serveContent env w r name modtime sizeFunc content =
     (case checkPreconditions env (serveContent_headers env w r name modtime) r modtime of
        (w3, done, rangeReq) \<Rightarrow>
          if done then w3
          else
            (case serveContent_ctype env w3 name content of
               Inl failed \<Rightarrow> failed
             | Inr (w4, ctype) \<Rightarrow>
                 (case sizeFunc of
                    Inl msg \<Rightarrow> http_Error w4 msg 500
                  | Inr sz \<Rightarrow>
                      if sz < 0 then http_Error w4 ''negative content size computed'' 500
                      else serveContent_send env w4 r ctype sz rangeReq content)))"

text \<open>
  A stand-in for the library, to run the model on concrete requests: it knows
  two dates and one file extension, sniffs every content as binary, and draws
  boundaries of 60 characters, as \<^verbatim>\<open>multipart.NewWriter\<close> does.
\<close>

definition testEnv :: Env where
  "testEnv =
     \<lparr>ParseTime =
        (\<lambda>s. if s = ''Thu, 01 Jan 1970 00:00:00 GMT'' then Some \<lparr>t_sec = 0, t_nsec = 0\<rparr>
              else if s = ''Sat, 01 Jan 2000 00:00:00 GMT''
              then Some \<lparr>t_sec = 946684800, t_nsec = 0\<rparr>
              else None),
      FormatTime =
        (\<lambda>t. if t_sec t = 0 then ''Thu, 01 Jan 1970 00:00:00 GMT''
              else if t_sec t = 946684800 then ''Sat, 01 Jan 2000 00:00:00 GMT''
              else []),
      Ext = (\<lambda>name. if HasSuffix name ''.txt'' then ''.txt'' else []),
      Base = (\<lambda>name. name),
      Quote = (\<lambda>s. [CHR 0x22] @ s @ [CHR 0x22]),
      TypeByExtension = (\<lambda>ext. if ext = ''.txt'' then ''text/plain; charset=utf-8'' else []),
      DetectContentType = (\<lambda>bs. ''application/octet-stream''),
      randomBoundary = (\<lambda>n. replicate 60 (if n = 0 then CHR ''a'' else CHR ''b''))\<rparr>"

text \<open>A response writer nothing has been written to, and a request without headers.\<close>

definition newResponse :: ResponseWriter where
  "newResponse = \<lparr>w_Header = (\<lambda>k. None), w_status = None, w_body = []\<rparr>"

definition newRequest :: "string \<Rightarrow> string \<Rightarrow> (string \<times> string) list \<Rightarrow> Request" where
  "newRequest method path hdrs =
     \<lparr>r_Method = method,
      r_Header = map_of (map (\<lambda>(k, v). (k, [v])) hdrs),
      r_Path = path,
      r_RawQuery = [],
      r_Query = (\<lambda>k. [])\<rparr>"

text \<open>A sparse file: \<open>n\<close> zero bytes behind a reader that seeks.\<close>

definition sparseContent :: "nat \<Rightarrow> Content" where
  "sparseContent n = \<lparr>c_data = replicate n (CHR 0x00), c_seekErr = None\<rparr>"

section \<open>Files, directories and the dispatcher\<close>

text \<open>
  \<^verbatim>\<open>strings.Contains\<close>, and \<^verbatim>\<open>strings.FieldsFunc\<close>: the maximal
  runs of bytes that do not satisfy the predicate. The predicate of
  \<^verbatim>\<open>containsDotDot\<close> holds for two ASCII characters only, which never
  are part of a longer UTF-8 sequence, so bytes stand for runes here.
\<close>

fun Contains :: "string \<Rightarrow> string \<Rightarrow> bool" where
  "Contains [] sub = (sub = [])"
| "Contains (c # cs) sub = (HasPrefix (c # cs) sub \<or> Contains cs sub)"

fun SplitFunc :: "string \<Rightarrow> (char \<Rightarrow> bool) \<Rightarrow> string list" where
  "SplitFunc [] f = [[]]"
| "SplitFunc (c # cs) f =
     (if f c then [] # SplitFunc cs f
      else (case SplitFunc cs f of
              [] \<Rightarrow> [[c]]
            | x # xs \<Rightarrow> (c # x) # xs))"

definition FieldsFunc :: "string \<Rightarrow> (char \<Rightarrow> bool) \<Rightarrow> string list" where
  "FieldsFunc s f = filter (\<lambda>x. x \<noteq> []) (SplitFunc s f)"

definition isSlashRune :: "char \<Rightarrow> bool" where
  "isSlashRune r \<longleftrightarrow> r = CHR ''/'' \<or> r = CHR 0x5C"

definition containsDotDot :: "string \<Rightarrow> bool" where
  "containsDotDot v =
     (if \<not> Contains v ''..'' then False
      else list_ex (\<lambda>ent. ent = ''..'') (FieldsFunc v isSlashRune))"

text \<open>
  \<^verbatim>\<open>strings.Join\<close>, \<^verbatim>\<open>path.Clean\<close> and \<^verbatim>\<open>path.Base\<close>.
  \<^verbatim>\<open>Clean\<close> drops empty elements and \<^verbatim>\<open>.\<close> elements, and lets
  a \<^verbatim>\<open>..\<close> element remove the element before it; at the root a
  \<^verbatim>\<open>..\<close> element is dropped, and a path that is not rooted keeps its
  leading \<^verbatim>\<open>..\<close> elements. The elements kept so far are held in reverse.
\<close>

fun Join :: "string list \<Rightarrow> string \<Rightarrow> string" where
  "Join [] sep = []"
| "Join [x] sep = x"
| "Join (x # y # ys) sep = x @ sep @ Join (y # ys) sep"

fun cleanElems :: "bool \<Rightarrow> string list \<Rightarrow> string list \<Rightarrow> string list" where
  "cleanElems rooted [] out = rev out"
| "cleanElems rooted (e # es) out =
     (if e = [] \<or> e = ''.'' then cleanElems rooted es out
      else if e = ''..'' then
        (if out \<noteq> [] \<and> hd out \<noteq> ''..'' then cleanElems rooted es (tl out)
         else if rooted then cleanElems rooted es out
         else cleanElems rooted es (''..'' # out))
      else cleanElems rooted es (e # out))"

definition path_Clean :: "string \<Rightarrow> string" where
  "path_Clean p =
     (if p = [] then ''.''
      else if hd p = CHR ''/'' then CHR ''/'' # Join (cleanElems True (Split p (CHR ''/'')) []) ''/''
      else if cleanElems False (Split p (CHR ''/'')) [] = [] then ''.''
      else Join (cleanElems False (Split p (CHR ''/'')) []) ''/'')"

definition path_Base :: "string \<Rightarrow> string" where
  "path_Base p =
     (if p = [] then ''.''
      else
        let stripped = rev (dropWhile (\<lambda>c. c = CHR ''/'') (rev p));
            elem = rev (takeWhile (\<lambda>c. c \<noteq> CHR ''/'') (rev stripped))
        in if elem = [] then ''/'' else elem)"

text \<open>
  \<^verbatim>\<open>filepath.Split\<close> where the separator is the slash: the directory up
  to and with the last separator, and the file name after it.
\<close>

definition filepath_Split :: "string \<Rightarrow> string \<times> string" where
  "filepath_Split name =
     (let file = rev (takeWhile (\<lambda>c. c \<noteq> CHR ''/'') (rev name))
      in (take (length name - length file) name, file))"

text \<open>
  The file system behind the handlers. \<^verbatim>\<open>Open\<close> gives an error or a
  file; a file has the result of \<^verbatim>\<open>Stat\<close>, its content as a reader
  that seeks, and the result of reading it as a directory: the names of the
  entries, each with its directory flag.
\<close>

datatype fsError = ErrNotExist | ErrPermission | ErrOther

record FileInfo =
  fi_Name :: string
  fi_Size :: int
  fi_ModTime :: Time
  fi_IsDir :: bool

record File =
  f_Stat :: "fsError + FileInfo"
  f_Content :: Content
  f_ReadDir :: "fsError + (string \<times> bool) list"

type_synonym FileSystem = "string \<Rightarrow> fsError + File"

text \<open>
  One call of the function that \<^verbatim>\<open>filepath.WalkDir\<close> is given: the
  path, the error that the walk passes in, the result of \<^verbatim>\<open>de.Info()\<close>
  (an error, or whether the mode is regular and the size), and the results of
  the calls that the function makes for a regular file: \<^verbatim>\<open>filepath.Rel\<close>,
  \<^verbatim>\<open>os.Open\<close>, \<^verbatim>\<open>FileInfoHeader\<close>, the writing of the header
  to the archive, and \<^verbatim>\<open>io.Copy\<close> with the number of bytes copied.
\<close>

record WalkEntry =
  e_path :: string
  e_err :: "string option"
  e_info :: "string + bool \<times> int"
  e_rel :: "string + string"
  e_open :: "string option"
  e_header :: "string option"
  e_create :: "string option"
  e_copy :: "int \<times> string option"

text \<open>An entry of the archive: its name, the size in its header, the bytes copied.\<close>

record ArchiveEntry =
  a_name :: string
  a_size :: int
  a_copied :: int

text \<open>
  What the handlers take from the machine they run on: the file system of a
  directory (\<^verbatim>\<open>http.Dir\<close>), the calls that \<^verbatim>\<open>filepath.WalkDir\<close>
  makes for a directory of the machine as long as no call returns an error,
  the bytes of a tar and of a zip archive with given entries, and the page
  that \<^verbatim>\<open>dirList\<close> prints for the entries of a directory. For the
  thumbnail branch: the draw of \<^verbatim>\<open>rand.Intn\<close>, the standard output of
  an external program run with given arguments (\<open>None\<close> when
  \<^verbatim>\<open>cmd.Output\<close> returns an error), the bytes that the constant
  \<^verbatim>\<open>FileImg\<close> decodes to, the clock, and the library's
  \<^verbatim>\<open>http.ServeContent\<close>, given a name, a modification time and the
  bytes to serve.
\<close>

record Host =
  osDir :: "string \<Rightarrow> FileSystem"
  osWalkDir :: "string \<Rightarrow> WalkEntry list"
  tarBytes :: "ArchiveEntry list \<Rightarrow> string"
  zipBytes :: "ArchiveEntry list \<Rightarrow> string"
  listingPage :: "(string \<times> bool) list \<Rightarrow> string"
  randIntn :: "nat \<Rightarrow> nat"
  execOutput :: "string \<Rightarrow> string list \<Rightarrow> string option"
  fileImg :: string
  timeNow :: Time
  http_ServeContent :: "ResponseWriter \<Rightarrow> Request \<Rightarrow> string \<Rightarrow> Time \<Rightarrow> string \<Rightarrow> ResponseWriter"

definition dirList :: "Host \<Rightarrow> ResponseWriter \<Rightarrow> Request \<Rightarrow> File \<Rightarrow> ResponseWriter" where
  "dirList host w r f =
     (case f_ReadDir f of
        Inl err \<Rightarrow> http_Error w ''Error reading directory'' 500
      | Inr dirs \<Rightarrow>
          Write (setHeader w ''Content-Type'' ''text/html; charset=utf-8'') (listingPage host dirs))"

definition toHTTPError :: "fsError \<Rightarrow> string \<times> nat" where
  "toHTTPError err =
     (if err = ErrNotExist then (''404 page not found'', 404)
      else if err = ErrPermission then (''403 Forbidden'', 403)
      else (''500 Internal Server Error'', 500))"

definition localRedirect :: "ResponseWriter \<Rightarrow> Request \<Rightarrow> string \<Rightarrow> ResponseWriter" where
  "localRedirect w r newPath =
     WriteHeader
       (setHeader w ''Location''
          (if r_RawQuery r \<noteq> [] then newPath @ ''?'' @ r_RawQuery r else newPath))
       301"

text \<open>
  \<^verbatim>\<open>serveFile\<close>. The result \<open>None\<close> is the run-time panic of
  \<^verbatim>\<open>url[len(url)-1]\<close> on an empty URL path.
\<close>

definition serveFile ::
  "Env \<Rightarrow> Host \<Rightarrow> ResponseWriter \<Rightarrow> Request \<Rightarrow> FileSystem \<Rightarrow> string \<Rightarrow> bool
    \<Rightarrow> ResponseWriter option" where
  "serveFile env host w r fs name redirect =
     (if HasSuffix (r_Path r) ''/index.html'' then Some (localRedirect w r ''./'')
      else
        (case fs name of
           Inl err \<Rightarrow> Some (http_Error w (fst (toHTTPError err)) (snd (toHTTPError err)))
         | Inr f \<Rightarrow>
             (case f_Stat f of
                Inl err \<Rightarrow> Some (http_Error w (fst (toHTTPError err)) (snd (toHTTPError err)))
              | Inr d \<Rightarrow>
                  if redirect \<and> r_Path r = [] then None
                  else if redirect \<and> fi_IsDir d \<and> last (r_Path r) \<noteq> CHR ''/''
                  then Some (localRedirect w r (path_Base (r_Path r) @ ''/''))
                  else if redirect \<and> \<not> fi_IsDir d \<and> last (r_Path r) = CHR ''/''
                  then Some (localRedirect w r (''../'' @ path_Base (r_Path r)))
                  else if fi_IsDir d \<and> (r_Path r = [] \<or> last (r_Path r) \<noteq> CHR ''/'')
                  then Some (localRedirect w r (path_Base (r_Path r) @ ''/''))
                  else
                    (case (if fi_IsDir d then
                             (case fs (TrimSuffix name ''/'' @ ''/index.html'') of
                                Inl err \<Rightarrow> (d, f)
                              | Inr ff \<Rightarrow>
                                  (case f_Stat ff of
                                     Inl err \<Rightarrow> (d, f)
                                   | Inr dd \<Rightarrow> (dd, ff)))
                           else (d, f)) of
                       (d', f') \<Rightarrow>
                         if fi_IsDir d' then
                           (if checkIfModifiedSince env r (fi_ModTime d') = condFalse
                            then Some (writeNotModified w)
                            else Some (dirList host (setLastModified env w (fi_ModTime d')) r f'))
                         else
                           Some (serveContent env w r (fi_Name d') (fi_ModTime d')
                                   (Inr (fi_Size d')) (f_Content f'))))))"

definition ServeFile ::
  "Env \<Rightarrow> Host \<Rightarrow> ResponseWriter \<Rightarrow> Request \<Rightarrow> string \<Rightarrow> ResponseWriter option" where
  "ServeFile env host w r name =
     (if containsDotDot (r_Path r) then Some (http_Error w ''invalid URL path'' 400)
      else
        (case filepath_Split name of
           (dir, file) \<Rightarrow> serveFile env host w r (osDir host dir) file False))"

section \<open>Archives\<close>

text \<open>
  The function that \<^verbatim>\<open>TarDir\<close> gives to \<^verbatim>\<open>filepath.WalkDir\<close>: the
  archive after the call, and the error that the call returns.
\<close>

definition tarFile :: "WalkEntry \<Rightarrow> ArchiveEntry list \<Rightarrow> ArchiveEntry list \<times> string option" where
  "tarFile e archive =
     (case e_err e of
        Some err \<Rightarrow> (archive, Some err)
      | None \<Rightarrow>
          (case e_info e of
             Inl ierr \<Rightarrow> (archive, Some ierr)
           | Inr (regular, sz) \<Rightarrow>
               if \<not> regular then (archive, None)
               else
                 (case e_rel e of
                    Inl err \<Rightarrow> (archive, Some err)
                  | Inr rel \<Rightarrow>
                      (case e_open e of
                         Some err \<Rightarrow> (archive, Some err)
                       | None \<Rightarrow>
                           (case e_header e of
                              Some err \<Rightarrow> (archive, Some err)
                            | None \<Rightarrow>
                                (case e_create e of
                                   Some err \<Rightarrow> (archive, Some err)
                                 | None \<Rightarrow>
                                     (archive @ [\<lparr>a_name = rel, a_size = sz,
                                                   a_copied = fst (e_copy e)\<rparr>],
                                      if sz \<noteq> fst (e_copy e)
                                      then Some (''mismatch of size with '' @ rel)
                                      else snd (e_copy e))))))))"

text \<open>The function that \<^verbatim>\<open>ZipDir\<close> gives to \<^verbatim>\<open>filepath.WalkDir\<close>.\<close>

definition zipFile :: "WalkEntry \<Rightarrow> ArchiveEntry list \<Rightarrow> ArchiveEntry list \<times> string option" where
  "zipFile e archive =
     (case e_err e of
        Some err \<Rightarrow> (archive, Some err)
      | None \<Rightarrow>
          (case e_info e of
             Inl ierr \<Rightarrow> (archive, Some ierr)
           | Inr (regular, sz) \<Rightarrow>
               if \<not> regular then (archive, None)
               else
                 (case e_rel e of
                    Inl err \<Rightarrow> (archive, Some err)
                  | Inr rel \<Rightarrow>
                      (case e_open e of
                         Some err \<Rightarrow> (archive, Some err)
                       | None \<Rightarrow>
                           (case e_header e of
                              Some err \<Rightarrow> (archive, Some err)
                            | None \<Rightarrow>
                                (case e_create e of
                                   Some err \<Rightarrow> (archive, Some err)
                                 | None \<Rightarrow>
                                     (archive @ [\<lparr>a_name = rel, a_size = sz,
                                                   a_copied = fst (e_copy e)\<rparr>],
                                      if sz \<noteq> fst (e_copy e)
                                      then Some (''mismatch of size with '' @ rel)
                                      else snd (e_copy e))))))))"

text \<open>
  \<^verbatim>\<open>filepath.WalkDir\<close> over the calls it would make: it stops at the
  first call that returns an error, and returns that error.
\<close>

fun WalkDir ::
  "(WalkEntry \<Rightarrow> ArchiveEntry list \<Rightarrow> ArchiveEntry list \<times> string option)
    \<Rightarrow> WalkEntry list \<Rightarrow> ArchiveEntry list \<Rightarrow> ArchiveEntry list \<times> string option" where
  "WalkDir fn [] archive = (archive, None)"
| "WalkDir fn (e # es) archive =
     (case fn e archive of
        (archive', Some err) \<Rightarrow> (archive', Some err)
      | (archive', None) \<Rightarrow> WalkDir fn es archive')"

text \<open>
  \<^verbatim>\<open>TarDir\<close> and \<^verbatim>\<open>ZipDir\<close> send the headers and status 200, walk
  the directory, drop the error of the walk and close the archive.
\<close>

definition TarDir :: "Host \<Rightarrow> string \<Rightarrow> ResponseWriter \<Rightarrow> string \<Rightarrow> ResponseWriter" where
  "TarDir host dirpath w name =
     Write
       (WriteHeader
          (setHeader (setHeader w ''Content-Type'' ''application/x-tar'')
             ''Content-Disposition''
             (''attachment; filename='' @ [CHR 0x22] @ name @ ''.tar'' @ [CHR 0x22]))
          200)
       (tarBytes host (fst (WalkDir tarFile (osWalkDir host dirpath) [])))"

definition ZipDir :: "Host \<Rightarrow> string \<Rightarrow> ResponseWriter \<Rightarrow> string \<Rightarrow> ResponseWriter" where
  "ZipDir host dirpath w name =
     Write
       (WriteHeader
          (setHeader (setHeader w ''Content-Type'' ''application/zip'')
             ''Content-Disposition''
             (''attachment; filename='' @ [CHR 0x22] @ name @ ''.zip'' @ [CHR 0x22]))
          200)
       (zipBytes host (fst (WalkDir zipFile (osWalkDir host dirpath) [])))"

text \<open>
  The arguments with which the thumbnail branch of the dispatcher runs
  \<^verbatim>\<open>ffmpegthumbnailer\<close> on a file path.
\<close>

definition thumbnailArgs :: "Host \<Rightarrow> string \<Rightarrow> string list" where
  "thumbnailArgs host filePath =
     [''-s'', ''0'', ''-q'', ''10'']
       @ [''-t'', FormatInt (int (randIntn host 100))]
       @ [''-i'', filePath, ''-o'', ''/dev/stdout'', ''-cpng'']"

text \<open>
  \<^verbatim>\<open>fileHandler.ServeHTTP\<close>, the dispatcher. The root is the handler's
  file system. The thumbnail branch reads the URL path as the request has it.
\<close>

definition ServeHTTP ::
  "Env \<Rightarrow> Host \<Rightarrow> FileSystem \<Rightarrow> ResponseWriter \<Rightarrow> Request \<Rightarrow> ResponseWriter option" where
  "ServeHTTP env host root w r =
     (if r_Query r ''thumb'' = ''true'' then
        (case execOutput host ''ffmpegthumbnailer'' (thumbnailArgs host (r_Path r)) of
           None \<Rightarrow> Some (http_ServeContent host w r [] (timeNow host) (fileImg host))
         | Some body \<Rightarrow> Some (http_ServeContent host w r [] (timeNow host) body))
      else
        let upath = (if \<not> HasPrefix (r_Path r) ''/'' then ''/'' @ r_Path r else r_Path r);
            r' = r\<lparr>r_Path := upath\<rparr>
        in if HasSuffix upath ''/'' \<and> r_Query r ''archive'' = ''tar''
           then Some (TarDir host (path_Clean upath) w (Base env upath))
           else if HasSuffix upath ''/'' \<and> r_Query r ''archive'' = ''zip''
           then Some (ZipDir host (path_Clean upath) w (Base env upath))
           else serveFile env host w r' root (path_Clean upath) True)"

text \<open>
  A machine for concrete requests: a root directory that holds the file
  \<^verbatim>\<open>b.txt\<close> of ten bytes, and nothing else; no thumbnail program,
  so that the fallback image is served; and a stand-in for
  \<^verbatim>\<open>http.ServeContent\<close> that writes the bytes.
\<close>

definition testRoot :: FileSystem where
  "testRoot name =
     (if name = ''/'' then
        Inr \<lparr>f_Stat = Inr \<lparr>fi_Name = ''/'', fi_Size = 4096,
                              fi_ModTime = \<lparr>t_sec = 946684800, t_nsec = 0\<rparr>, fi_IsDir = True\<rparr>,
             f_Content = \<lparr>c_data = [], c_seekErr = Some ''is a directory''\<rparr>,
             f_ReadDir = Inr [(''b.txt'', False)]\<rparr>
      else if name = ''/b.txt'' then
        Inr \<lparr>f_Stat = Inr \<lparr>fi_Name = ''b.txt'', fi_Size = 10,
                              fi_ModTime = \<lparr>t_sec = 946684800, t_nsec = 0\<rparr>, fi_IsDir = False\<rparr>,
             f_Content = \<lparr>c_data = ''0123456789'', c_seekErr = None\<rparr>,
             f_ReadDir = Inl ErrOther\<rparr>
      else Inl ErrNotExist)"

definition testHost :: Host where
  "testHost =
     \<lparr>osDir = (\<lambda>dir name. testRoot (''/'' @ name)),
      osWalkDir = (\<lambda>dirpath. []),
      tarBytes = (\<lambda>entries. concat (map a_name entries)),
      zipBytes = (\<lambda>entries. concat (map a_name entries)),
      listingPage = (\<lambda>dirs. concat (map fst dirs)),
      randIntn = (\<lambda>n. 0),
      execOutput = (\<lambda>prog args. None),
      fileImg = ''png'',
      timeNow = \<lparr>t_sec = 946684800, t_nsec = 0\<rparr>,
      http_ServeContent = (\<lambda>w r name modtime bytes. Write w bytes)\<rparr>"

section \<open>Notions of the specification\<close>

text \<open>
  The invariant of a byte range as the specification words it: the start is
  not negative, the length is positive, and the range ends within the
  resource.
\<close>

definition ByteRange_inv :: "int \<Rightarrow> httpRange \<Rightarrow> bool" where
  "ByteRange_inv sz r \<longleftrightarrow> 0 \<le> r_start r \<and> 0 < r_length r \<and> r_start r + r_length r \<le> sz"

text \<open>
  The invariant that \<^verbatim>\<open>parseRange\<close> keeps: as above, but the length may
  be zero for the empty range at the very end of the resource.
\<close>

definition rangeWithin :: "int \<Rightarrow> httpRange \<Rightarrow> bool" where
  "rangeWithin sz r \<longleftrightarrow>
     0 \<le> r_start r \<and> 0 \<le> r_length r \<and> r_start r + r_length r \<le> sz
       \<and> (r_length r = 0 \<longrightarrow> r_start r = sz)"

text \<open>A range lies within the bytes that the content really has.\<close>

definition inBounds :: "Content \<Rightarrow> httpRange \<Rightarrow> bool" where
  "inBounds content ra \<longleftrightarrow>
     0 \<le> r_start ra \<and> 0 \<le> r_length ra
       \<and> r_start ra + r_length ra \<le> int (length (c_data content))"

text \<open>The framing overhead of a multipart body: the bytes of all part headers.\<close>

fun framingSize :: "string \<Rightarrow> string \<Rightarrow> int \<Rightarrow> bool \<Rightarrow> httpRange list \<Rightarrow> nat" where
  "framingSize boundary ctype sz first [] = 0"
| "framingSize boundary ctype sz first (ra # ras) =
     length (partHeader boundary first (mimeHeader ra ctype sz))
       + framingSize boundary ctype sz False ras"

text \<open>
  The failures of a \<^verbatim>\<open>Range\<close> header as the specification names them,
  read off the text of the header. A spec is one comma-separated field after
  the prefix \<^verbatim>\<open>bytes=\<close>; its start and its end are the trimmed texts
  before and after its first \<^verbatim>\<open>-\<close>.
\<close>

definition specStart :: "string \<Rightarrow> string" where
  "specStart ra = TrimString (fst (Cut (TrimString ra) (CHR ''-'')))"

definition specEnd :: "string \<Rightarrow> string" where
  "specEnd ra = TrimString (fst (snd (Cut (TrimString ra) (CHR ''-''))))"

text \<open>
  A spec starts at or past the size: its start is a number at or past the
  size. Its end is not looked at.
\<close>

definition startsPast :: "int \<Rightarrow> string \<Rightarrow> bool" where
  "startsPast sz ra \<longleftrightarrow>
     CHR ''-'' \<in> set (TrimString ra) \<and> specStart ra \<noteq> []
       \<and> (case ParseInt (specStart ra) of None \<Rightarrow> False | Some i \<Rightarrow> 0 \<le> i \<and> sz \<le> i)"

text \<open>
  A spec is malformed: it is not blank and has no \<^verbatim>\<open>-\<close>; or it has no
  start and its end is empty, begins with \<^verbatim>\<open>-\<close> or is no number that
  is not negative; or its start is no number that is not negative; or its
  start lies below the size and its end is not empty and is no number at or
  above the start.
\<close>

definition malformedSpec :: "int \<Rightarrow> string \<Rightarrow> bool" where
  "malformedSpec sz ra \<longleftrightarrow>
     TrimString ra \<noteq> []
       \<and> (CHR ''-'' \<notin> set (TrimString ra)
          \<or> (specStart ra = []
              \<and> (specEnd ra = [] \<or> hd (specEnd ra) = CHR ''-''
                  \<or> (case ParseInt (specEnd ra) of None \<Rightarrow> True | Some i \<Rightarrow> i < 0)))
          \<or> (specStart ra \<noteq> []
              \<and> (case ParseInt (specStart ra) of
                    None \<Rightarrow> True
                  | Some i \<Rightarrow>
                      i < 0
                      \<or> (i < sz \<and> specEnd ra \<noteq> []
                          \<and> (case ParseInt (specEnd ra) of None \<Rightarrow> True | Some j \<Rightarrow> j < i)))))"

text \<open>
  A header has no overlap when it has the prefix, at least one spec starts at
  or past the size, and every other spec is blank or does so as well. A header
  is malformed when it is not empty and lacks the prefix or has a malformed
  spec.
\<close>

definition rangeSpecs :: "string \<Rightarrow> string list" where
  "rangeSpecs s = Split (drop 6 s) (CHR '','')"

definition noOverlapHeader :: "string \<Rightarrow> int \<Rightarrow> bool" where
  "noOverlapHeader s sz \<longleftrightarrow>
     HasPrefix s ''bytes=''
       \<and> list_all (\<lambda>ra. TrimString ra = [] \<or> startsPast sz ra) (rangeSpecs s)
       \<and> list_ex (startsPast sz) (rangeSpecs s)"

definition malformedHeader :: "string \<Rightarrow> int \<Rightarrow> bool" where
  "malformedHeader s sz \<longleftrightarrow>
     s \<noteq> [] \<and> (\<not> HasPrefix s ''bytes='' \<or> list_ex (malformedSpec sz) (rangeSpecs s))"

text \<open>
  A path contains a \<^verbatim>\<open>..\<close> segment, delimited by a slash or a
  backslash: the two dots stand at the start of the path or after a delimiter,
  and at the end of the path or before a delimiter.
\<close>

definition dotDotSegment :: "string \<Rightarrow> bool" where
  "dotDotSegment v \<longleftrightarrow>
     (\<exists>pre post. v = pre @ ''..'' @ post
        \<and> (pre = [] \<or> isSlashRune (last pre))
        \<and> (post = [] \<or> isSlashRune (hd post)))"

text \<open>The URL path made rooted, as the dispatcher does first.\<close>

definition rootedPath :: "string \<Rightarrow> string" where
  "rootedPath p = (if \<not> HasPrefix p ''/'' then ''/'' @ p else p)"

section \<open>Evaluation rules\<close>

lemmas ev_str = HasPrefix_def HasSuffix_def TrimString_def TrimPrefix_def TrimSuffix_def
  isASCIISpace_def Cut_def ParseInt_def isDigit_def digitsVal_def digitVal_def Let_def
  FormatInt_def formatNat.simps digitChar_def

lemmas ev_http = Header_Get_def Header_Set_def Header_Del_def setHeader_def delHeader_def
  WriteHeader_def Write_def http_Error_def newResponse_def newRequest_def testEnv_def

lemmas ev_time = Time_IsZero_def Time_Equal_def Time_Unix_def Time_TruncateSecond_def
  Time_Compare_def unixEpochTime_def isZeroTime_def

lemmas ev_cond = checkIfMatch_def checkIfNoneMatch_def checkIfUnmodifiedSince_def
  checkIfModifiedSince_def checkIfRange_def setLastModified_def writeNotModified_def
  checkPreconditions_def checkIfMatchLoop.simps checkIfNoneMatchLoop.simps scanETag_def
  scanETagLoop.simps etagChar_def etagStrongMatch_def etagWeakMatch_def

lemmas ev_range = parseRange_def parseRangeSpec_def sumRangesSize_def wrap64_def errorText_def
  contentRange_def mimeHeader_def CRLF_def partHeader_def closeDelimiter_def rangesMIMESize_def
  Seek_def CopyN_def

lemmas ev_serve = serveContent_def serveContent_headers_def serveContent_ctype_def
  serveContent_send_def

lemmas ev_spec = noOverlapHeader_def malformedHeader_def rangeSpecs_def startsPast_def
  malformedSpec_def specStart_def specEnd_def

section \<open>Integers: wrap-around, parsing and printing\<close>

lemma wrap64_id: "- (2 ^ 63) \<le> x \<Longrightarrow> x < 2 ^ 63 \<Longrightarrow> wrap64 x = x"
  by (simp add: wrap64_def)

lemma wrap64_add_left: "wrap64 (wrap64 a + b) = wrap64 (a + b)"
proof -
  define h :: int where "h = 2 ^ 63"
  define m :: int where "m = 2 ^ 64"
  have w: "wrap64 x = (x + h) mod m - h" for x
    by (simp add: wrap64_def h_def m_def)
  have "(wrap64 a + b + h) mod m = ((a + h) mod m + b) mod m"
    by (simp add: w)
  also have "\<dots> = (a + h + b) mod m"
    by (rule mod_add_left_eq)
  also have "\<dots> = (a + b + h) mod m"
    by (simp add: ac_simps)
  finally show ?thesis
    by (simp add: w)
qed

lemma wrap64_add_right: "wrap64 (a + wrap64 b) = wrap64 (a + b)"
  using wrap64_add_left [of b a] by (simp add: add.commute)

lemma wrap64_0: "wrap64 0 = 0"
  by (simp add: wrap64_def)

lemma digitVal_digitChar: "d < 10 \<Longrightarrow> digitVal (digitChar d) = int d"
proof -
  assume "d < 10"
  then have "d \<in> {0, 1, 2, 3, 4, 5, 6, 7, 8, 9}"
    by auto
  then show ?thesis
    by (auto simp: digitVal_def digitChar_def)
qed

lemma isDigit_digitChar: "d < 10 \<Longrightarrow> isDigit (digitChar d)"
proof -
  assume "d < 10"
  then have "d \<in> {0, 1, 2, 3, 4, 5, 6, 7, 8, 9}"
    by auto
  then show ?thesis
    by (auto simp: isDigit_def digitChar_def)
qed

lemma digitsVal_snoc: "digitsVal (xs @ [c]) = 10 * digitsVal xs + digitVal c"
  by (simp add: digitsVal_def)

lemma formatNat_digits:
  "list_all isDigit (formatNat n) \<and> formatNat n \<noteq> [] \<and> digitsVal (formatNat n) = int n"
proof (induction n rule: formatNat.induct)
  case (1 n)
  show ?case
  proof (cases "n < 10")
    case True
    then show ?thesis
      by (subst (1 2 3) formatNat.simps)
        (simp add: isDigit_digitChar digitVal_digitChar digitsVal_def)
  next
    case False
    with 1 have IH: "list_all isDigit (formatNat (n div 10))" "formatNat (n div 10) \<noteq> []"
      "digitsVal (formatNat (n div 10)) = int (n div 10)"
      by auto
    have m: "n mod 10 < 10" by simp
    from False IH show ?thesis
      by (subst (1 2 3) formatNat.simps)
        (simp add: isDigit_digitChar [OF m] digitVal_digitChar [OF m] digitsVal_snoc
          zdiv_int zmod_int)
  qed
qed

lemma isDigit_plain:
  "isDigit c \<Longrightarrow> c \<noteq> CHR ''-'' \<and> c \<noteq> CHR ''+'' \<and> c \<noteq> CHR '','' \<and> \<not> isASCIISpace c"
  by (auto simp: isDigit_def isASCIISpace_def)

text \<open>Printing and parsing agree on every number that is not negative and fits 64 bits.\<close>

lemma ParseInt_FormatInt:
  assumes "0 \<le> n" "n < 2 ^ 63"
  shows "ParseInt (FormatInt n) = Some n" and "CHR ''-'' \<notin> set (FormatInt n)"
proof -
  let ?s = "formatNat (nat n)"
  from formatNat_digits [of "nat n"] have d: "list_all isDigit ?s" and ne: "?s \<noteq> []"
    and v: "digitsVal ?s = int (nat n)"
    by auto
  from d ne have "isDigit (hd ?s)"
    by (cases ?s) auto
  then have hd: "hd ?s \<noteq> CHR ''-''" "hd ?s \<noteq> CHR ''+''"
    using isDigit_plain by auto
  with d ne v assms show "ParseInt (FormatInt n) = Some n"
    by (simp add: ParseInt_def FormatInt_def Let_def)
  from d show "CHR ''-'' \<notin> set (FormatInt n)"
    using assms isDigit_plain by (auto simp: FormatInt_def list_all_iff)
qed

lemma Split_no_sep: "sep \<notin> set s \<Longrightarrow> Split s sep = [s]"
  by (induction s) auto

lemma dropWhile_none: "\<forall>c \<in> set s. \<not> P c \<Longrightarrow> dropWhile P s = s"
  by (cases s) auto

lemma TrimString_no_space: "\<forall>c \<in> set s. \<not> isASCIISpace c \<Longrightarrow> TrimString s = s"
  by (simp add: TrimString_def dropWhile_none)

lemma Cut_first: "sep \<notin> set a \<Longrightarrow> Cut (a @ sep # b) sep = (a, b, True)"
proof -
  assume "sep \<notin> set a"
  then have "takeWhile (\<lambda>c. c \<noteq> sep) (a @ sep # b) = a"
    and "dropWhile (\<lambda>c. c \<noteq> sep) (a @ sep # b) = sep # b"
    by (induction a) auto
  then show ?thesis
    by (simp add: Cut_def)
qed

lemma ParseInt_chars:
  assumes "ParseInt s = Some v"
  shows "s \<noteq> []" and "\<forall>c \<in> set s. isDigit c \<or> c = CHR ''+'' \<or> c = CHR ''-''"
proof -
  from assms show ne: "s \<noteq> []"
    by (auto simp: ParseInt_def)
  then obtain c cs where s: "s = c # cs"
    by (cases s) auto
  with assms show "\<forall>c \<in> set s. isDigit c \<or> c = CHR ''+'' \<or> c = CHR ''-''"
    by (auto simp: ParseInt_def Let_def list_all_iff split: if_splits)
qed

lemma ParseInt_plain:
  assumes "ParseInt s = Some v"
  shows "CHR '','' \<notin> set s" and "TrimString s = s"
proof -
  from ParseInt_chars(2) [OF assms]
  have *: "\<forall>c \<in> set s. c \<noteq> CHR '','' \<and> \<not> isASCIISpace c"
    using isDigit_plain by (auto simp: isASCIISpace_def)
  then show "CHR '','' \<notin> set s" by auto
  from * show "TrimString s = s"
    by (intro TrimString_no_space) auto
qed

section \<open>Sums of range lengths and the size of the multipart body\<close>

lemma sumRangesSizeLoop_eq:
  "sumRangesSizeLoop ranges (wrap64 acc) = wrap64 (acc + sum_list (map r_length ranges))"
proof (induction ranges arbitrary: acc)
  case Nil
  then show ?case by simp
next
  case (Cons ra ras)
  have "sumRangesSizeLoop (ra # ras) (wrap64 acc) = sumRangesSizeLoop ras (wrap64 (acc + r_length ra))"
    by (simp add: wrap64_add_left)
  also have "\<dots> = wrap64 (acc + r_length ra + sum_list (map r_length ras))"
    by (rule Cons.IH)
  finally show ?case
    by (simp add: add.assoc)
qed

lemma sumRangesSize_eq:
  "sumRangesSize ranges = wrap64 (sum_list (map r_length ranges))"
  using sumRangesSizeLoop_eq [of ranges 0] by (simp add: sumRangesSize_def wrap64_0)

lemma length_partHeader:
  "length (partHeader boundary first hdr) =
     (if first then 2 else 4) + length boundary + 2
       + length (concat (map (\<lambda>(k, v). k @ '': '' @ v @ CRLF) hdr)) + 2"
  by (simp add: partHeader_def CRLF_def)

lemma framingSize_boundary:
  "length b0 = length b1 \<Longrightarrow> framingSize b0 ctype sz first ranges = framingSize b1 ctype sz first ranges"
  by (induction ranges arbitrary: first) (simp_all add: length_partHeader)

lemma length_closeDelimiter: "length (closeDelimiter boundary) = length boundary + 8"
  by (simp add: closeDelimiter_def CRLF_def)

lemma rangesMIMESizeLoop_eq:
  "rangesMIMESizeLoop boundary ctype sz ranges first (wrap64 w, wrap64 encSize) =
     (wrap64 (w + int (framingSize boundary ctype sz first ranges)),
      wrap64 (encSize + sum_list (map r_length ranges)))"
proof (induction ranges arbitrary: first w encSize)
  case Nil
  then show ?case by simp
next
  case (Cons ra ras)
  let ?h = "int (length (partHeader boundary first (mimeHeader ra ctype sz)))"
  have "rangesMIMESizeLoop boundary ctype sz (ra # ras) first (wrap64 w, wrap64 encSize) =
      rangesMIMESizeLoop boundary ctype sz ras False (wrap64 (w + ?h), wrap64 (encSize + r_length ra))"
    by (simp add: wrap64_add_left)
  also have "\<dots> = (wrap64 (w + ?h + int (framingSize boundary ctype sz False ras)),
      wrap64 (encSize + r_length ra + sum_list (map r_length ras)))"
    by (rule Cons.IH)
  finally show ?case
    by (simp add: add.assoc)
qed

lemma rangesMIMESize_eq:
  "rangesMIMESize env ranges ctype sz =
     wrap64 (int (framingSize (randomBoundary env 0) ctype sz True ranges)
             + sum_list (map r_length ranges)
             + int (length (closeDelimiter (randomBoundary env 0))))"
proof -
  let ?b = "randomBoundary env 0"
  let ?F = "int (framingSize ?b ctype sz True ranges)"
  let ?L = "sum_list (map r_length ranges)"
  let ?C = "int (length (closeDelimiter ?b))"
  have "rangesMIMESizeLoop ?b ctype sz ranges True (0, 0) = (wrap64 (0 + ?F), wrap64 (0 + ?L))"
    using rangesMIMESizeLoop_eq [of ?b ctype sz ranges True 0 0] by (simp add: wrap64_0)
  then have "rangesMIMESize env ranges ctype sz = wrap64 (wrap64 ?L + wrap64 (wrap64 ?F + ?C))"
    by (simp add: rangesMIMESize_def)
  also have "\<dots> = wrap64 (?L + wrap64 (wrap64 ?F + ?C))"
    by (rule wrap64_add_left)
  also have "\<dots> = wrap64 (?L + (wrap64 ?F + ?C))"
    by (rule wrap64_add_right)
  also have "?L + (wrap64 ?F + ?C) = wrap64 ?F + (?L + ?C)"
    by simp
  also have "wrap64 (wrap64 ?F + (?L + ?C)) = wrap64 (?F + (?L + ?C))"
    by (rule wrap64_add_left)
  finally show ?thesis
    by (simp add: add.assoc)
qed

lemma length_CopyN:
  "inBounds content ra \<Longrightarrow> int (length (CopyN content (r_start ra) (r_length ra))) = r_length ra"
  by (auto simp: inBounds_def CopyN_def)

lemma length_multipartStream:
  assumes "c_seekErr content = None" and "list_all (inBounds content) ranges"
  shows "int (length (multipartStream boundary ctype sz content first ranges)) =
     int (framingSize boundary ctype sz first ranges) + sum_list (map r_length ranges)
       + int (length (closeDelimiter boundary))"
  using assms(2)
proof (induction ranges arbitrary: first)
  case Nil
  then show ?case
    by (simp add: multipartStream.simps)
next
  case (Cons ra ras)
  then have ib: "inBounds content ra" and rest: "list_all (inBounds content) ras"
    by auto
  from ib have seek: "Seek content (r_start ra) = Inr (r_start ra)"
    using assms(1) by (simp add: Seek_def inBounds_def)
  from Cons.IH [OF rest, of False] length_CopyN [OF ib] show ?case
    by (simp add: seek multipartStream.simps)
qed

lemma rangesMIMESize_exact:
  assumes "length (randomBoundary env 0) = length (randomBoundary env 1)"
    and "c_seekErr content = None"
    and "list_all (inBounds content) ranges"
    and "int (length (multipartStream (randomBoundary env 1) ctype sz content True ranges)) < 2 ^ 63"
  shows "rangesMIMESize env ranges ctype sz =
    int (length (multipartStream (randomBoundary env 1) ctype sz content True ranges))"
proof -
  let ?n = "int (length (multipartStream (randomBoundary env 1) ctype sz content True ranges))"
  have "rangesMIMESize env ranges ctype sz = wrap64 ?n"
    using assms(1)
    by (simp add: rangesMIMESize_eq length_multipartStream [OF assms(2,3)]
        framingSize_boundary [OF assms(1)] length_closeDelimiter)
  moreover have "wrap64 ?n = ?n"
    using assms(4) by (intro wrap64_id) auto
  ultimately show ?thesis
    by simp
qed

lemma sparseContent_seek: "c_seekErr (sparseContent n) = None"
  by (simp add: sparseContent_def)

lemma sparseContent_length: "length (c_data (sparseContent n)) = n"
  by (simp add: sparseContent_def)

section \<open>The ranges that parseRange returns\<close>

lemma parseRangeSpec_within:
  assumes "parseRangeSpec ra sz acc = Inr acc'" and "0 \<le> sz"
    and "list_all (rangeWithin sz) (fst acc)"
  shows "list_all (rangeWithin sz) (fst acc')"
  using assms
  by (auto simp: parseRangeSpec_def Let_def rangeWithin_def
      split: if_splits prod.splits option.splits)

lemma parseRangeLoop_within:
  assumes "parseRangeLoop ras sz acc = Inr acc'" and "0 \<le> sz"
    and "list_all (rangeWithin sz) (fst acc)"
  shows "list_all (rangeWithin sz) (fst acc')"
  using assms
proof (induction ras arbitrary: acc)
  case Nil
  then show ?case by simp
next
  case (Cons ra ras)
  then show ?case
    by (auto split: sum.splits dest: parseRangeSpec_within)
qed

lemma parseRange_list_all:
  assumes "parseRange s sz = Inr ranges" and "0 \<le> sz"
  shows "list_all (rangeWithin sz) ranges"
proof (cases "s = []")
  case True
  with assms show ?thesis by (simp add: parseRange_def)
next
  case False
  with assms obtain acc' where
    loop: "parseRangeLoop (Split (drop 6 s) (CHR '','')) sz ([], False) = Inr acc'"
    and r: "ranges = fst acc'"
    by (auto simp: parseRange_def split: if_splits sum.splits prod.splits)
  from parseRangeLoop_within [OF loop \<open>0 \<le> sz\<close>] r show ?thesis
    by simp
qed

text \<open>
  Claim C6, as amended. Every range that \<^verbatim>\<open>parseRange\<close> returns for a
  resource of size \<open>sz\<close> (not negative, as \<^verbatim>\<open>serveContent\<close> has
  checked) has a start that is not negative, a length that is not negative,
  and ends within the resource; the length is zero only for the empty range
  at the end of the resource, which a suffix of length zero asks for.
\<close>

theorem parseRange_within:
  assumes "parseRange s sz = Inr ranges" and "0 \<le> sz"
  shows "\<forall>r \<in> set ranges. rangeWithin sz r"
  using parseRange_list_all [OF assms] by (simp add: list_all_iff)

theorem parseRange_within_witness:
  "parseRange ''bytes=0-0,2-3,-0'' 10 =
     Inr [\<lparr>r_start = 0, r_length = 1\<rparr>, \<lparr>r_start = 2, r_length = 2\<rparr>,
          \<lparr>r_start = 10, r_length = 0\<rparr>]
   \<and> rangeWithin 10 \<lparr>r_start = 0, r_length = 1\<rparr>
   \<and> rangeWithin 10 \<lparr>r_start = 2, r_length = 2\<rparr>
   \<and> rangeWithin 10 \<lparr>r_start = 10, r_length = 0\<rparr>"
proof -
  have p: "parseRange ''bytes=0-0,2-3,-0'' 10 =
     Inr [\<lparr>r_start = 0, r_length = 1\<rparr>, \<lparr>r_start = 2, r_length = 2\<rparr>,
          \<lparr>r_start = 10, r_length = 0\<rparr>]"
    by (simp add: ev_range ev_str)
  from parseRange_within [OF p] p show ?thesis
    by simp
qed

text \<open>
  The claim as the specification states it fails: the suffix of length zero
  is accepted and gives a range of length zero.
\<close>

theorem parseRange_zero_length_counterexample:
  "parseRange ''bytes=-0'' 10 = Inr [\<lparr>r_start = 10, r_length = 0\<rparr>]
   \<and> \<not> ByteRange_inv 10 \<lparr>r_start = 10, r_length = 0\<rparr>"
  by (simp add: ev_range ev_str ByteRange_inv_def)

text \<open>
  Claim C7, as amended. For a spec \<^verbatim>\<open>bytes=a-b\<close> whose two fields
  \<^verbatim>\<open>strconv.ParseInt\<close> reads as the integers \<open>a\<close> and \<open>b\<close> (so both
  fit a signed 64-bit integer), with \<open>0 \<le> a \<le> b\<close> and \<open>a\<close> below the
  size, \<^verbatim>\<open>parseRange\<close> returns the one range that starts at \<open>a\<close>; it
  has length \<open>b - a + 1\<close> when \<open>b\<close> is below the size, and else reaches to
  the last byte of the resource.
\<close>

theorem parseRange_start_end:
  assumes sa: "ParseInt sa = Some a" and sb: "ParseInt sb = Some b"
    and nodash: "CHR ''-'' \<notin> set sa"
    and ord: "0 \<le> a" "a \<le> b" "a < sz"
  shows "parseRange (''bytes='' @ sa @ ''-'' @ sb) sz =
    Inr [\<lparr>r_start = a, r_length = (if b < sz then b else sz - 1) - a + 1\<rparr>]"
proof -
  let ?ra = "sa @ ''-'' @ sb"
  have comma: "CHR '','' \<notin> set ?ra"
    using ParseInt_plain(1) [OF sa] ParseInt_plain(1) [OF sb] by simp
  have "\<forall>c \<in> set ?ra. \<not> isASCIISpace c"
    using ParseInt_chars(2) [OF sa] ParseInt_chars(2) [OF sb] isDigit_plain
    by (auto simp: isASCIISpace_def)
  then have trim: "TrimString ?ra = ?ra"
    by (rule TrimString_no_space)
  have cut: "Cut ?ra (CHR ''-'') = (sa, sb, True)"
    using Cut_first [OF nodash, of sb] by simp
  have ne: "sa \<noteq> []" "sb \<noteq> []"
    using ParseInt_chars(1) [OF sa] ParseInt_chars(1) [OF sb] by auto
  have spec: "parseRangeSpec ?ra sz ([], False) =
      Inr ([\<lparr>r_start = a, r_length = (if b < sz then b else sz - 1) - a + 1\<rparr>], False)"
    using ord ne
    by (simp add: parseRangeSpec_def trim cut ParseInt_plain(2) [OF sa] ParseInt_plain(2) [OF sb]
        sa sb Let_def del: append.simps)
  have "Split (drop 6 (''bytes='' @ ?ra)) (CHR '','') = [?ra]"
    using Split_no_sep [OF comma] by simp
  then show ?thesis
    using spec by (simp add: parseRange_def HasPrefix_def)
qed

theorem parseRange_start_end_witness:
  "parseRange ''bytes=2-5'' 10 = Inr [\<lparr>r_start = 2, r_length = 4\<rparr>]
   \<and> parseRange ''bytes=2-50'' 10 = Inr [\<lparr>r_start = 2, r_length = 8\<rparr>]"
  using parseRange_start_end [of "''2''" 2 "''5''" 5 10]
    parseRange_start_end [of "''2''" 2 "''50''" 50 10]
  by (simp add: ParseInt_def isDigit_def digitsVal_def digitVal_def)

text \<open>
  The claim as the specification states it fails for an end that does not fit
  a signed 64-bit integer: the spec is rejected as malformed, not clamped.
\<close>

theorem parseRange_huge_end_counterexample:
  "digitsVal ''9223372036854775808'' = 2 ^ 63
   \<and> parseRange ''bytes=0-9223372036854775808'' 10 = Inl errInvalidRange"
  by (simp add: ev_range ev_str)

section \<open>The blocks of serveContent\<close>

lemma checkPreconditions_pass:
  "checkPreconditions env w r modtime = (w', False, rr) \<Longrightarrow> w' = w"
  by (auto simp: checkPreconditions_def Let_def split: if_splits condResult.splits)

lemma setHeader_fields [simp]:
  "w_status (setHeader w k v) = w_status w"
  "w_body (setHeader w k v) = w_body w"
  "Header_Get (w_Header (setHeader w k v)) k' = (if k' = k then v else Header_Get (w_Header w) k')"
  by (simp_all add: setHeader_def Header_Get_def Header_Set_def)

lemma setLastModified_fields [simp]:
  "w_status (setLastModified env w t) = w_status w"
  "w_body (setLastModified env w t) = w_body w"
  "k \<noteq> ''Last-Modified'' \<Longrightarrow>
     Header_Get (w_Header (setLastModified env w t)) k = Header_Get (w_Header w) k"
  by (simp_all add: setLastModified_def)

lemma serveContent_headers_fields [simp]:
  "w_status (serveContent_headers env w r name t) = w_status w"
  "w_body (serveContent_headers env w r name t) = w_body w"
  "k \<noteq> ''Last-Modified'' \<Longrightarrow> k \<noteq> ''Content-Type'' \<Longrightarrow> k \<noteq> ''Content-Disposition'' \<Longrightarrow>
     Header_Get (w_Header (serveContent_headers env w r name t)) k = Header_Get (w_Header w) k"
  by (simp_all add: serveContent_headers_def)

lemma serveContent_ctype_fields:
  assumes "serveContent_ctype env w name content = Inr (w', ctype)"
  shows "w_status w' = w_status w" and "w_body w' = w_body w"
    and "k \<noteq> ''Content-Type'' \<Longrightarrow> Header_Get (w_Header w') k = Header_Get (w_Header w) k"
  using assms
  by (auto simp: serveContent_ctype_def split: option.splits if_splits sum.splits)

lemma WriteHeader_fields [simp]:
  "w_status (WriteHeader w code) = Some (case w_status w of None \<Rightarrow> code | Some c \<Rightarrow> c)"
  "w_body (WriteHeader w code) = w_body w"
  "w_Header (WriteHeader w code) = w_Header w"
  by (simp_all add: WriteHeader_def split: option.splits)

lemma Write_fields [simp]:
  "w_status (Write w bs) = Some (case w_status w of None \<Rightarrow> 200 | Some c \<Rightarrow> c)"
  "w_body (Write w bs) = w_body w @ bs"
  "w_Header (Write w bs) = w_Header w"
  by (simp_all add: Write_def)

lemma http_Error_fields [simp]:
  "w_status (http_Error w msg code) = Some (case w_status w of None \<Rightarrow> code | Some c \<Rightarrow> c)"
  "w_body (http_Error w msg code) = w_body w @ msg @ [CHR 0x0A]"
  "k \<noteq> ''Content-Type'' \<Longrightarrow> k \<noteq> ''X-Content-Type-Options'' \<Longrightarrow>
     Header_Get (w_Header (http_Error w msg code)) k = Header_Get (w_Header w) k"
  by (simp_all add: http_Error_def split: option.splits)

lemma serveContent_reaches_send:
  assumes "checkPreconditions env (serveContent_headers env w r name modtime) r modtime
      = (w3, False, rangeReq)"
    and "serveContent_ctype env w3 name content = Inr (w4, ctype)"
    and "sizeFunc = Inr sz" and "0 \<le> sz"
  shows "serveContent env w r name modtime sizeFunc content =
    serveContent_send env w4 r ctype sz rangeReq content"
  using assms by (simp add: serveContent_def)

lemma reaches_send_writer:
  assumes "checkPreconditions env (serveContent_headers env w r name modtime) r modtime
      = (w3, False, rangeReq)"
    and "serveContent_ctype env w3 name content = Inr (w4, ctype)"
  shows "w_status w4 = w_status w" and "w_body w4 = w_body w"
    and "k \<noteq> ''Last-Modified'' \<Longrightarrow> k \<noteq> ''Content-Type'' \<Longrightarrow> k \<noteq> ''Content-Disposition'' \<Longrightarrow>
      Header_Get (w_Header w4) k = Header_Get (w_Header w) k"
proof -
  from checkPreconditions_pass [OF assms(1)]
  have w3: "w3 = serveContent_headers env w r name modtime" .
  from serveContent_ctype_fields [OF assms(2)] show "w_status w4 = w_status w" "w_body w4 = w_body w"
    by (simp_all add: w3)
  assume "k \<noteq> ''Last-Modified''" "k \<noteq> ''Content-Type''" "k \<noteq> ''Content-Disposition''"
  with serveContent_ctype_fields(3) [OF assms(2), of k]
  show "Header_Get (w_Header w4) k = Header_Get (w_Header w) k"
    by (simp add: w3)
qed

text \<open>The full response: what the last block sends when no range is left.\<close>

lemma serveContent_send_full_eq:
  assumes "(case parseRange rangeReq sz of
            Inr ranges \<Rightarrow> ranges = [] \<or> sumRangesSize ranges > sz
          | Inl err \<Rightarrow> err = errNoOverlap \<and> sz = 0)"
  shows "serveContent_send env w r ctype sz rangeReq content =
     (let w7 = setHeader w ''Accept-Ranges'' ''bytes'';
          w8 = (if Header_Get (w_Header w7) ''Content-Encoding'' = []
                then setHeader w7 ''Content-Length'' (FormatInt sz)
                else w7);
          w9 = WriteHeader w8 200
      in if r_Method r \<noteq> ''HEAD''
         then Write w9 (take (nat sz) (c_data content))
         else w9)"
proof (cases "parseRange rangeReq sz")
  case (Inl err)
  with assms have "err = errNoOverlap" "sz = 0"
    by simp_all
  with Inl show ?thesis
    unfolding \<open>sz = 0\<close> by (simp add: serveContent_send_def)
next
  case (Inr ranges)
  with assms have "(if sumRangesSize ranges > sz then [] else ranges) = []"
    by auto
  with Inr show ?thesis
    by (simp add: serveContent_send_def)
qed

lemma serveContent_send_full:
  assumes "w_status w = None"
    and "(case parseRange rangeReq sz of
            Inr ranges \<Rightarrow> ranges = [] \<or> sumRangesSize ranges > sz
          | Inl err \<Rightarrow> err = errNoOverlap \<and> sz = 0)"
  shows "w_status (serveContent_send env w r ctype sz rangeReq content) = Some 200"
    and "w_body (serveContent_send env w r ctype sz rangeReq content) =
      w_body w @ (if r_Method r = ''HEAD'' then [] else take (nat sz) (c_data content))"
    and "Header_Get (w_Header w) ''Content-Encoding'' = [] \<Longrightarrow>
      Header_Get (w_Header (serveContent_send env w r ctype sz rangeReq content)) ''Content-Length''
        = FormatInt sz"
    and "Header_Get (w_Header (serveContent_send env w r ctype sz rangeReq content)) ''Content-Range''
        = Header_Get (w_Header w) ''Content-Range''"
  using assms(1)
  by (simp_all add: serveContent_send_full_eq [OF assms(2)] Let_def)

lemma serveContent_send_noOverlap:
  assumes "w_status w = None" and "parseRange rangeReq sz = Inl errNoOverlap" and "sz \<noteq> 0"
  shows "serveContent_send env w r ctype sz rangeReq content =
    http_Error (setHeader w ''Content-Range'' (''bytes */'' @ FormatInt sz))
      ''invalid range: failed to overlap'' 416"
  using assms by (simp add: serveContent_send_def errorText_def)

lemma serveContent_send_invalid:
  assumes "parseRange rangeReq sz = Inl errInvalidRange"
  shows "serveContent_send env w r ctype sz rangeReq content = http_Error w ''invalid range'' 416"
  using assms by (simp add: serveContent_send_def errorText_def)

lemma serveContent_send_status:
  assumes "w_status w = None"
  shows "w_status (serveContent_send env w r ctype sz rangeReq content)
    \<in> {Some 200, Some 206, Some 416}"
proof (cases "parseRange rangeReq sz")
  case (Inl err)
  with assms show ?thesis
    by (simp add: serveContent_send_def Let_def)
next
  case (Inr ranges0)
  define ranges where "ranges = (if sumRangesSize ranges0 > sz then [] else ranges0)"
  consider "length ranges = 1" | "length ranges > 1" | "length ranges = 0"
    by (cases "length ranges") auto
  then show ?thesis
  proof cases
    case 1
    with assms Inr show ?thesis
      unfolding ranges_def
      by (cases "Seek content (r_start (hd (if sumRangesSize ranges0 > sz then [] else ranges0)))")
        (simp_all add: serveContent_send_def Let_def)
  next
    case 2
    with assms Inr show ?thesis
      unfolding ranges_def by (simp add: serveContent_send_def Let_def)
  next
    case 3
    with assms Inr show ?thesis
      unfolding ranges_def by (simp add: serveContent_send_def Let_def)
  qed
qed

section \<open>Range requests\<close>

text \<open>A modification time, a ten-byte content and an empty one, for concrete requests.\<close>

definition sampleTime :: Time where
  "sampleTime = \<lparr>t_sec = 946684800, t_nsec = 0\<rparr>"

definition sampleContent :: Content where
  "sampleContent = \<lparr>c_data = ''0123456789'', c_seekErr = None\<rparr>"

definition emptyContent :: Content where
  "emptyContent = \<lparr>c_data = [], c_seekErr = None\<rparr>"

lemmas ev_fix = sampleTime_def sampleContent_def emptyContent_def

text \<open>
  What \<^verbatim>\<open>parseRange\<close> makes of each spec, and of the header.
\<close>

lemma parseRangeSpec_blank: "TrimString ra = [] \<Longrightarrow> parseRangeSpec ra sz acc = Inr acc"
  by (simp add: parseRangeSpec_def)

lemma parseRangeSpec_malformed:
  "malformedSpec sz ra \<Longrightarrow> parseRangeSpec ra sz acc = Inl errInvalidRange"
  unfolding malformedSpec_def parseRangeSpec_def specStart_def specEnd_def Cut_def Let_def
  by (auto split: option.splits)

lemma parseRangeSpec_past:
  "startsPast sz ra \<Longrightarrow> parseRangeSpec ra sz acc = Inr (fst acc, True)"
  unfolding startsPast_def parseRangeSpec_def specStart_def specEnd_def Cut_def Let_def
  by (auto split: option.splits)

lemma parseRangeSpec_range:
  "TrimString ra \<noteq> [] \<Longrightarrow> \<not> malformedSpec sz ra \<Longrightarrow> \<not> startsPast sz ra \<Longrightarrow>
     \<exists>r. parseRangeSpec ra sz acc = Inr (fst acc @ [r], snd acc)"
  unfolding startsPast_def malformedSpec_def parseRangeSpec_def specStart_def specEnd_def Cut_def Let_def
  by (auto split: option.splits)

lemma startsPast_not_malformed: "startsPast sz ra \<Longrightarrow> \<not> malformedSpec sz ra"
  unfolding startsPast_def malformedSpec_def
  by (auto split: option.splits)

lemma parseRangeLoop_malformed:
  "list_ex (malformedSpec sz) ras \<Longrightarrow> parseRangeLoop ras sz acc = Inl errInvalidRange"
proof (induction ras arbitrary: acc)
  case Nil
  then show ?case by simp
next
  case (Cons ra ras)
  show ?case
  proof (cases "malformedSpec sz ra")
    case True
    then show ?thesis
      by (simp add: parseRangeSpec_malformed)
  next
    case False
    with Cons.prems have ex: "list_ex (malformedSpec sz) ras"
      by simp
    consider "TrimString ra = []" | "startsPast sz ra"
      | "TrimString ra \<noteq> []" "\<not> startsPast sz ra"
      by blast
    then obtain acc' where "parseRangeSpec ra sz acc = Inr acc'"
      using parseRangeSpec_blank parseRangeSpec_past parseRangeSpec_range [OF _ False]
      by (cases; metis)
    with Cons.IH [OF ex] show ?thesis
      by simp
  qed
qed

lemma parseRangeLoop_wellformed:
  "\<not> list_ex (malformedSpec sz) ras \<Longrightarrow>
     \<exists>rs. parseRangeLoop ras sz acc
            = Inr (fst acc @ rs, snd acc \<or> list_ex (startsPast sz) ras)
        \<and> (rs = [] \<longleftrightarrow> list_all (\<lambda>ra. TrimString ra = [] \<or> startsPast sz ra) ras)"
proof (induction ras arbitrary: acc)
  case Nil
  then show ?case by simp
next
  case (Cons ra ras)
  then have nm: "\<not> malformedSpec sz ra" and rest: "\<not> list_ex (malformedSpec sz) ras"
    by simp_all
  consider (blank) "TrimString ra = []" | (past) "startsPast sz ra"
    | (range) "TrimString ra \<noteq> []" "\<not> startsPast sz ra"
    by blast
  then show ?case
  proof cases
    case blank
    then have nb: "\<not> startsPast sz ra"
      by (auto simp: startsPast_def)
    from Cons.IH [OF rest, of acc] blank nb show ?thesis
      by (simp add: parseRangeSpec_blank)
  next
    case past
    from Cons.IH [OF rest, of "(fst acc, True)"] past show ?thesis
      by (simp add: parseRangeSpec_past)
  next
    case range
    from parseRangeSpec_range [OF range(1) nm range(2)]
    obtain r where r: "parseRangeSpec ra sz acc = Inr (fst acc @ [r], snd acc)"
      by blast
    from Cons.IH [OF rest, of "(fst acc @ [r], snd acc)"]
    obtain rs where "parseRangeLoop ras sz (fst acc @ [r], snd acc)
        = Inr (fst acc @ r # rs, snd acc \<or> list_ex (startsPast sz) ras)"
      by auto
    with range r show ?thesis
      by (intro exI [of _ "r # rs"]) simp
  qed
qed

lemma parseRange_noOverlap_iff:
  "parseRange s sz = Inl errNoOverlap \<longleftrightarrow> noOverlapHeader s sz"
proof (cases "HasPrefix s ''bytes=''")
  case False
  then show ?thesis
    by (simp add: parseRange_def noOverlapHeader_def)
next
  case True
  then have ne: "s \<noteq> []"
    by (auto simp: HasPrefix_def)
  show ?thesis
  proof (cases "list_ex (malformedSpec sz) (rangeSpecs s)")
    case m: True
    then have "\<not> list_all (\<lambda>ra. TrimString ra = [] \<or> startsPast sz ra) (rangeSpecs s)"
      using startsPast_not_malformed
      by (auto simp: list_all_iff list_ex_iff malformedSpec_def)
    with parseRangeLoop_malformed [OF m, of "([], False)"] True ne show ?thesis
      by (simp add: parseRange_def noOverlapHeader_def rangeSpecs_def)
  next
    case False
    from parseRangeLoop_wellformed [OF False, of "([], False)"]
    obtain rs where "parseRangeLoop (rangeSpecs s) sz ([], False)
          = Inr (rs, list_ex (startsPast sz) (rangeSpecs s))"
      and "rs = [] \<longleftrightarrow> list_all (\<lambda>ra. TrimString ra = [] \<or> startsPast sz ra) (rangeSpecs s)"
      by auto
    with True ne show ?thesis
      by (auto simp: parseRange_def noOverlapHeader_def rangeSpecs_def)
  qed
qed

lemma parseRange_invalid_iff:
  "parseRange s sz = Inl errInvalidRange \<longleftrightarrow> malformedHeader s sz"
proof (cases "s \<noteq> [] \<and> HasPrefix s ''bytes=''")
  case False
  then show ?thesis
    by (auto simp: parseRange_def malformedHeader_def)
next
  case True
  show ?thesis
  proof (cases "list_ex (malformedSpec sz) (rangeSpecs s)")
    case m: True
    with parseRangeLoop_malformed [OF m, of "([], False)"] True show ?thesis
      by (simp add: parseRange_def malformedHeader_def rangeSpecs_def)
  next
    case False
    from parseRangeLoop_wellformed [OF False, of "([], False)"]
    obtain rs where "parseRangeLoop (rangeSpecs s) sz ([], False)
          = Inr (rs, list_ex (startsPast sz) (rangeSpecs s))"
      by auto
    with True False show ?thesis
      by (auto simp: parseRange_def malformedHeader_def rangeSpecs_def)
  qed
qed

text \<open>
  Claim C2, as amended. When \<^verbatim>\<open>serveContent\<close> reaches its range
  handling (the preconditions pass, the content type is found, the size is
  known and not negative) on a fresh response, with the \<^verbatim>\<open>Range\<close>
  header that the preconditions let through: a header without overlap (it has
  the prefix \<^verbatim>\<open>bytes=\<close>, at least one spec whose start is a number at
  or past the size, whatever the end of that spec, and no other spec that is
  not blank) gives, on a resource that is not empty, status 416 with the
  header \<^verbatim>\<open>Content-Range: bytes */size\<close> and the message
  \<^verbatim>\<open>invalid range: failed to overlap\<close>; on an empty resource it is
  ignored and the response is the full one, with status 200; a malformed
  header (no prefix, or a malformed spec) gives status 416 as well, with the
  message \<^verbatim>\<open>invalid range\<close> and the \<^verbatim>\<open>Content-Range\<close> header
  left as it was. These two kinds of header are exactly those for which
  \<^verbatim>\<open>parseRange\<close> returns its two errors, and no header gives status
  400.
\<close>

theorem range_failure_responses:
  assumes pre: "checkPreconditions env (serveContent_headers env w r name modtime) r modtime
      = (w3, False, rangeReq)"
    and ctype: "serveContent_ctype env w3 name content = Inr (w4, ctype)"
    and size: "sizeFunc = Inr sz" "0 \<le> sz"
    and fresh: "w_status w = None"
  shows "(noOverlapHeader rangeReq sz \<and> sz \<noteq> 0 \<longrightarrow>
           w_status (serveContent env w r name modtime sizeFunc content) = Some 416
           \<and> Header_Get (w_Header (serveContent env w r name modtime sizeFunc content))
               ''Content-Range'' = ''bytes */'' @ FormatInt sz
           \<and> w_body (serveContent env w r name modtime sizeFunc content)
               = w_body w @ ''invalid range: failed to overlap'' @ [CHR 0x0A])
       \<and> (noOverlapHeader rangeReq sz \<and> sz = 0 \<longrightarrow>
           w_status (serveContent env w r name modtime sizeFunc content) = Some 200
           \<and> w_body (serveContent env w r name modtime sizeFunc content) = w_body w
           \<and> Header_Get (w_Header (serveContent env w r name modtime sizeFunc content))
               ''Content-Range'' = Header_Get (w_Header w) ''Content-Range'')
       \<and> (malformedHeader rangeReq sz \<longrightarrow>
           w_status (serveContent env w r name modtime sizeFunc content) = Some 416
           \<and> w_body (serveContent env w r name modtime sizeFunc content)
               = w_body w @ ''invalid range'' @ [CHR 0x0A]
           \<and> Header_Get (w_Header (serveContent env w r name modtime sizeFunc content))
               ''Content-Range'' = Header_Get (w_Header w) ''Content-Range'')
       \<and> (parseRange rangeReq sz = Inl errNoOverlap \<longleftrightarrow> noOverlapHeader rangeReq sz)
       \<and> (parseRange rangeReq sz = Inl errInvalidRange \<longleftrightarrow> malformedHeader rangeReq sz)
       \<and> w_status (serveContent env w r name modtime sizeFunc content) \<noteq> Some 400"
proof -
  note send = serveContent_reaches_send [OF pre ctype size]
  note w4 = reaches_send_writer [OF pre ctype]
  have fresh4: "w_status w4 = None"
    using fresh by (simp add: w4)
  have cr: "Header_Get (w_Header w4) ''Content-Range'' = Header_Get (w_Header w) ''Content-Range''"
    by (rule w4(3)) simp_all
  have never: "w_status (serveContent env w r name modtime sizeFunc content) \<noteq> Some 400"
    using serveContent_send_status [OF fresh4, of env r ctype sz rangeReq content]
    by (auto simp: send)
  have "w_status (serveContent env w r name modtime sizeFunc content) = Some 416
      \<and> Header_Get (w_Header (serveContent env w r name modtime sizeFunc content))
          ''Content-Range'' = ''bytes */'' @ FormatInt sz
      \<and> w_body (serveContent env w r name modtime sizeFunc content)
          = w_body w @ ''invalid range: failed to overlap'' @ [CHR 0x0A]"
    if a: "noOverlapHeader rangeReq sz \<and> sz \<noteq> 0"
  proof -
    from a have p: "parseRange rangeReq sz = Inl errNoOverlap" and nz: "sz \<noteq> 0"
      by (simp_all add: parseRange_noOverlap_iff)
    have eq: "serveContent env w r name modtime sizeFunc content =
        http_Error (setHeader w4 ''Content-Range'' (''bytes */'' @ FormatInt sz))
          ''invalid range: failed to overlap'' 416"
      using serveContent_send_noOverlap [OF fresh4 p nz] send by simp
    show ?thesis
      using fresh4 by (simp add: eq w4)
  qed
  moreover have "w_status (serveContent env w r name modtime sizeFunc content) = Some 200
      \<and> w_body (serveContent env w r name modtime sizeFunc content) = w_body w
      \<and> Header_Get (w_Header (serveContent env w r name modtime sizeFunc content))
          ''Content-Range'' = Header_Get (w_Header w) ''Content-Range''"
    if a: "noOverlapHeader rangeReq sz \<and> sz = 0"
  proof -
    from a have z: "sz = 0"
      by (rule conjunct2)
    from a have "noOverlapHeader rangeReq sz"
      by (rule conjunct1)
    then have p: "parseRange rangeReq sz = Inl errNoOverlap"
      by (simp only: parseRange_noOverlap_iff)
    with z have c: "(case parseRange rangeReq sz of
            Inr ranges \<Rightarrow> ranges = [] \<or> sumRangesSize ranges > sz
          | Inl err \<Rightarrow> err = errNoOverlap \<and> sz = 0)"
      by simp
    note full = serveContent_send_full [OF fresh4 c, of env r ctype content]
    from full(1) full(2) full(4) show ?thesis
      by (simp add: send w4 cr z)
  qed
  moreover have "w_status (serveContent env w r name modtime sizeFunc content) = Some 416
      \<and> w_body (serveContent env w r name modtime sizeFunc content)
          = w_body w @ ''invalid range'' @ [CHR 0x0A]
      \<and> Header_Get (w_Header (serveContent env w r name modtime sizeFunc content))
          ''Content-Range'' = Header_Get (w_Header w) ''Content-Range''"
    if a: "malformedHeader rangeReq sz"
  proof -
    from a have p: "parseRange rangeReq sz = Inl errInvalidRange"
      by (simp add: parseRange_invalid_iff)
    have eq: "serveContent env w r name modtime sizeFunc content =
        http_Error w4 ''invalid range'' 416"
      using serveContent_send_invalid [OF p] send by simp
    show ?thesis
      using fresh4 by (simp add: eq w4 cr)
  qed
  ultimately show ?thesis
    using never parseRange_noOverlap_iff [of rangeReq sz] parseRange_invalid_iff [of rangeReq sz]
    by blast
qed

theorem range_failure_responses_witness:
  "noOverlapHeader ''bytes=20-30'' 10 \<and> noOverlapHeader ''bytes=20-abc'' 10
   \<and> noOverlapHeader ''bytes=0-abc'' 0 \<and> malformedHeader ''bytes=abc'' 10
   \<and> w_status (serveContent testEnv newResponse
       (newRequest ''GET'' ''/a.txt'' [(''Range'', ''bytes=20-30'')])
       ''a.txt'' sampleTime (Inr 10) sampleContent) = Some 416
   \<and> Header_Get (w_Header (serveContent testEnv newResponse
       (newRequest ''GET'' ''/a.txt'' [(''Range'', ''bytes=20-abc'')])
       ''a.txt'' sampleTime (Inr 10) sampleContent)) ''Content-Range'' = ''bytes */10''
   \<and> w_body (serveContent testEnv newResponse
       (newRequest ''GET'' ''/a.txt'' [(''Range'', ''bytes=20-abc'')])
       ''a.txt'' sampleTime (Inr 10) sampleContent)
       = ''invalid range: failed to overlap'' @ [CHR 0x0A]
   \<and> w_status (serveContent testEnv newResponse
       (newRequest ''GET'' ''/a.txt'' [(''Range'', ''bytes=0-abc'')])
       ''a.txt'' sampleTime (Inr 0) emptyContent) = Some 200
   \<and> w_status (serveContent testEnv newResponse
       (newRequest ''GET'' ''/a.txt'' [(''Range'', ''bytes=abc'')])
       ''a.txt'' sampleTime (Inr 10) sampleContent) = Some 416
   \<and> w_body (serveContent testEnv newResponse
       (newRequest ''GET'' ''/a.txt'' [(''Range'', ''bytes=abc'')])
       ''a.txt'' sampleTime (Inr 10) sampleContent) = ''invalid range'' @ [CHR 0x0A]"
proof -
  let ?w = "\<lambda>r. serveContent_headers testEnv newResponse r ''a.txt'' sampleTime"
  let ?w4 = "\<lambda>r. setHeader (?w r) ''Content-Type'' ''text/plain; charset=utf-8''"
  have pre: "checkPreconditions testEnv (?w (newRequest ''GET'' ''/a.txt'' [(''Range'', rg)]))
      (newRequest ''GET'' ''/a.txt'' [(''Range'', rg)]) sampleTime
      = (?w (newRequest ''GET'' ''/a.txt'' [(''Range'', rg)]), False, rg)" for rg
    by (simp add: ev_serve ev_cond ev_time ev_http ev_fix)
  have ct: "serveContent_ctype testEnv (?w (newRequest ''GET'' ''/a.txt'' [(''Range'', rg)]))
      ''a.txt'' c = Inr (?w4 (newRequest ''GET'' ''/a.txt'' [(''Range'', rg)]),
        ''text/plain; charset=utf-8'')" for rg c
    by (simp add: ev_serve ev_cond ev_time ev_http ev_fix ev_str)
  have fresh: "w_status newResponse = None"
    by (simp add: newResponse_def)
  have p1: "noOverlapHeader ''bytes=20-30'' 10"
    and p2: "noOverlapHeader ''bytes=20-abc'' 10"
    and p3: "noOverlapHeader ''bytes=0-abc'' 0"
    and p4: "malformedHeader ''bytes=abc'' 10"
    by (simp_all add: ev_spec ev_str)
  have f: "FormatInt 10 = ''10''"
    by (simp add: ev_str)
  from range_failure_responses [OF pre [of "''bytes=20-30''"] ct [of "''bytes=20-30''" sampleContent]
      refl _ fresh, where sz = 10]
    range_failure_responses [OF pre [of "''bytes=20-abc''"] ct [of "''bytes=20-abc''" sampleContent]
      refl _ fresh, where sz = 10]
    range_failure_responses [OF pre [of "''bytes=0-abc''"] ct [of "''bytes=0-abc''" emptyContent]
      refl _ fresh, where sz = 0]
    range_failure_responses [OF pre [of "''bytes=abc''"] ct [of "''bytes=abc''" sampleContent]
      refl _ fresh, where sz = 10]
  show ?thesis
    by (simp add: p1 p2 p3 p4 f newResponse_def)
qed

text \<open>
  The claim as the specification states it fails: a malformed header is
  answered with status 416, not 400.
\<close>

theorem malformed_range_counterexample:
  "parseRange ''bytes=abc'' 10 = Inl errInvalidRange
   \<and> w_status (serveContent testEnv newResponse
        (newRequest ''GET'' ''/a.txt'' [(''Range'', ''bytes=abc'')])
        ''a.txt'' sampleTime (Inr 10) sampleContent) = Some 416
   \<and> w_status (serveContent testEnv newResponse
        (newRequest ''GET'' ''/a.txt'' [(''Range'', ''bytes=abc'')])
        ''a.txt'' sampleTime (Inr 10) sampleContent) \<noteq> Some 400"
  by (simp add: ev_serve ev_range ev_cond ev_time ev_http ev_str ev_fix)

text \<open>
  Ranges whose lengths add up to more than the size are dropped and the full
  resource is sent, as long as the sum of the lengths fits 64 bits.
\<close>

lemma oversized_ranges_full_response:
  assumes pre: "checkPreconditions env (serveContent_headers env w r name modtime) r modtime
      = (w3, False, rangeReq)"
    and ctype: "serveContent_ctype env w3 name content = Inr (w4, ctype)"
    and size: "sizeFunc = Inr sz" "0 \<le> sz"
    and fresh: "w_status w = None"
    and ranges: "parseRange rangeReq sz = Inr ranges"
    and over: "sz < sum_list (map r_length ranges)"
    and fits: "sum_list (map r_length ranges) < 2 ^ 63"
  shows "w_status (serveContent env w r name modtime sizeFunc content) = Some 200
    \<and> w_body (serveContent env w r name modtime sizeFunc content) =
        w_body w @ (if r_Method r = ''HEAD'' then [] else take (nat sz) (c_data content))"
proof -
  have "sumRangesSize ranges = sum_list (map r_length ranges)"
    unfolding sumRangesSize_eq using over fits size(2) by (intro wrap64_id) auto
  with over ranges have c: "(case parseRange rangeReq sz of
            Inr ranges \<Rightarrow> ranges = [] \<or> sumRangesSize ranges > sz
          | Inl err \<Rightarrow> err = errNoOverlap \<and> sz = 0)"
    by simp
  note w4 = reaches_send_writer [OF pre ctype]
  have fresh4: "w_status w4 = None"
    using fresh by (simp add: w4)
  from serveContent_send_full(1,2) [OF fresh4 c, of env r ctype content] show ?thesis
    by (simp add: serveContent_reaches_send [OF pre ctype size] w4)
qed

text \<open>
  Claim C5: ranges whose lengths sum to more than the size of the resource are
  discarded and the full resource is served with status 200. The code does so
  only while the sum fits a signed 64-bit integer. On a resource of
  \<open>2 ^ 62\<close> bytes the header \<^verbatim>\<open>bytes=0-,0-\<close> asks for twice the
  resource; the sum of the lengths wraps around to a negative number, the
  ranges are kept, and the response is a multipart 206.
\<close>

theorem oversized_ranges_overflow:
  "parseRange ''bytes=0-,0-'' (2 ^ 62) =
     Inr [\<lparr>r_start = 0, r_length = 2 ^ 62\<rparr>, \<lparr>r_start = 0, r_length = 2 ^ 62\<rparr>]
   \<and> sum_list (map r_length [\<lparr>r_start = 0, r_length = 2 ^ 62\<rparr>, \<lparr>r_start = 0, r_length = 2 ^ 62\<rparr>])
       = 2 ^ 63
   \<and> sumRangesSize [\<lparr>r_start = 0, r_length = 2 ^ 62\<rparr>, \<lparr>r_start = 0, r_length = 2 ^ 62\<rparr>]
       = - (2 ^ 63)
   \<and> w_status (serveContent testEnv newResponse
        (newRequest ''GET'' ''/a.txt'' [(''Range'', ''bytes=0-,0-'')])
        ''a.txt'' sampleTime (Inr (2 ^ 62)) (sparseContent (2 ^ 62))) = Some 206"
  by (simp add: ev_serve ev_range ev_cond ev_time ev_http ev_str ev_fix sparseContent_seek)

text \<open>
  The length that \<^verbatim>\<open>rangesMIMESize\<close> computes is the length of the
  multipart body whenever that length fits 64 bits, and it is the
  \<^verbatim>\<open>Content-Length\<close> of the response.
\<close>

lemma multirange_response:
  assumes pre: "checkPreconditions env (serveContent_headers env w r name modtime) r modtime
      = (w3, False, rangeReq)"
    and ctype: "serveContent_ctype env w3 name content = Inr (w4, ctype)"
    and size: "sizeFunc = Inr sz" "0 \<le> sz"
    and fresh: "w_status w = None"
    and ranges: "parseRange rangeReq sz = Inr ranges" "length ranges > 1"
    and sum: "sumRangesSize ranges \<le> sz"
    and content: "c_seekErr content = None" "int (length (c_data content)) = sz"
    and boundary: "length (randomBoundary env 0) = length (randomBoundary env 1)"
    and fits: "int (length (multipartStream (randomBoundary env 1) ctype sz content True ranges))
        < 2 ^ 63"
    and get: "r_Method r \<noteq> ''HEAD''"
    and enc: "Header_Get (w_Header w) ''Content-Encoding'' = []"
  shows "w_status (serveContent env w r name modtime sizeFunc content) = Some 206
    \<and> w_body (serveContent env w r name modtime sizeFunc content) =
        w_body w @ multipartStream (randomBoundary env 1) ctype sz content True ranges
    \<and> Header_Get (w_Header (serveContent env w r name modtime sizeFunc content)) ''Content-Length''
        = FormatInt (int (length (multipartStream (randomBoundary env 1) ctype sz content True ranges)))"
proof -
  let ?stream = "multipartStream (randomBoundary env 1) ctype sz content True ranges"
  note w4 = reaches_send_writer [OF pre ctype]
  have fresh4: "w_status w4 = None"
    using fresh by (simp add: w4)
  have enc4: "Header_Get (w_Header w4) ''Content-Encoding'' = []"
    using enc w4(3) [of "''Content-Encoding''"] by simp
  have "list_all (rangeWithin sz) ranges"
    by (rule parseRange_list_all [OF ranges(1) size(2)])
  then have "list_all (inBounds content) ranges"
    using content(2) by (auto simp: list_all_iff rangeWithin_def inBounds_def)
  from rangesMIMESize_exact [OF boundary content(1) this fits]
  have mime: "rangesMIMESize env ranges ctype sz = int (length ?stream)" .
  have "serveContent_send env w4 r ctype sz rangeReq content =
      Write (WriteHeader
        (setHeader
          (setHeader
            (setHeader w4 ''Content-Type''
              (''multipart/byteranges; boundary='' @ randomBoundary env 1))
            ''Accept-Ranges'' ''bytes'')
          ''Content-Length'' (FormatInt (int (length ?stream)))) 206) ?stream"
    using ranges sum get enc4
    by (simp add: serveContent_send_def mime Let_def)
  then show ?thesis
    using fresh4 by (simp add: serveContent_reaches_send [OF pre ctype size] w4)
qed

text \<open>
  Claim C4: the \<^verbatim>\<open>Content-Length\<close> of a multi-range response, computed
  by \<^verbatim>\<open>rangesMIMESize\<close>, is the number of bytes of the multipart body.
  The code computes it in 64-bit integers that wrap around. On a resource of
  \<open>2 ^ 63 - 1\<close> bytes the header \<^verbatim>\<open>bytes=0-0,1-\<close> asks for two
  ranges whose lengths add up to the size, so the ranges are kept; the body
  has \<open>2 ^ 63 + 393\<close> bytes, and the computed length is \<open>393 - 2 ^ 63\<close>.
\<close>

theorem rangesMIMESize_overflow:
  "parseRange ''bytes=0-0,1-'' (2 ^ 63 - 1) =
     Inr [\<lparr>r_start = 0, r_length = 1\<rparr>, \<lparr>r_start = 1, r_length = 2 ^ 63 - 2\<rparr>]
   \<and> sumRangesSize [\<lparr>r_start = 0, r_length = 1\<rparr>, \<lparr>r_start = 1, r_length = 2 ^ 63 - 2\<rparr>]
       = 2 ^ 63 - 1
   \<and> rangesMIMESize testEnv
        [\<lparr>r_start = 0, r_length = 1\<rparr>, \<lparr>r_start = 1, r_length = 2 ^ 63 - 2\<rparr>]
        ''text/plain; charset=utf-8'' (2 ^ 63 - 1) = 393 - 2 ^ 63
   \<and> int (length (multipartStream (randomBoundary testEnv 1) ''text/plain; charset=utf-8''
        (2 ^ 63 - 1) (sparseContent (2 ^ 63 - 1)) True
        [\<lparr>r_start = 0, r_length = 1\<rparr>, \<lparr>r_start = 1, r_length = 2 ^ 63 - 2\<rparr>])) = 2 ^ 63 + 393
   \<and> w_status (serveContent testEnv newResponse
        (newRequest ''GET'' ''/a.txt'' [(''Range'', ''bytes=0-0,1-'')])
        ''a.txt'' sampleTime (Inr (2 ^ 63 - 1)) (sparseContent (2 ^ 63 - 1))) = Some 206
   \<and> Header_Get (w_Header (serveContent testEnv newResponse
        (newRequest ''GET'' ''/a.txt'' [(''Range'', ''bytes=0-0,1-'')])
        ''a.txt'' sampleTime (Inr (2 ^ 63 - 1)) (sparseContent (2 ^ 63 - 1)))) ''Content-Length''
       = ''-9223372036854775415''"
proof -
  have "list_all (inBounds (sparseContent (2 ^ 63 - 1)))
      [\<lparr>r_start = 0, r_length = 1\<rparr>, \<lparr>r_start = 1, r_length = 2 ^ 63 - 2\<rparr>]"
    by (simp add: inBounds_def sparseContent_length)
  from length_multipartStream [OF sparseContent_seek this]
  have "int (length (multipartStream (randomBoundary testEnv 1) ''text/plain; charset=utf-8''
        (2 ^ 63 - 1) (sparseContent (2 ^ 63 - 1)) True
        [\<lparr>r_start = 0, r_length = 1\<rparr>, \<lparr>r_start = 1, r_length = 2 ^ 63 - 2\<rparr>])) = 2 ^ 63 + 393"
    by (simp add: ev_range ev_str ev_http)
  then show ?thesis
    by (simp add: ev_serve ev_range ev_cond ev_time ev_http ev_str ev_fix sparseContent_seek)
qed

section \<open>Preconditions\<close>

text \<open>
  The elements of a header value that lists entity tags, read from left to
  right as \<^verbatim>\<open>checkIfMatch\<close> and \<^verbatim>\<open>checkIfNoneMatch\<close> read them:
  commas and space are skipped, an element that begins with \<^verbatim>\<open>*\<close> is
  the wildcard and ends the list, and the list ends before the first element
  that is no entity tag.
\<close>

datatype listElement = Wildcard | EntityTag string

function headerListElements :: "string \<Rightarrow> listElement list" where
  "headerListElements v =
     (if TrimString v = [] then []
      else if hd (TrimString v) = CHR '','' then headerListElements (tl (TrimString v))
      else if hd (TrimString v) = CHR ''*'' then [Wildcard]
      else if fst (scanETag (TrimString v)) = [] then []
      else EntityTag (fst (scanETag (TrimString v)))
             # headerListElements (snd (scanETag (TrimString v))))"
  by pat_completeness auto

termination headerListElements
proof (relation "measure length")
  show "wf (measure length)"
    by simp
next
  fix v :: string
  assume "TrimString v \<noteq> []"
  then have "length (tl (TrimString v)) < length (TrimString v)"
    by (cases "TrimString v") auto
  with length_TrimString [of v] show "(tl (TrimString v), v) \<in> measure length"
    by simp
next
  fix v :: string
  assume "fst (scanETag (TrimString v)) \<noteq> []"
  from scanETag_remain [OF this] length_TrimString [of v]
  show "(snd (scanETag (TrimString v)), v) \<in> measure length"
    by simp
qed

declare headerListElements.simps [simp del]

text \<open>An entity tag in its double quotes.\<close>

definition quoted :: "string \<Rightarrow> string" where
  "quoted s = CHR 0x22 # s @ [CHR 0x22]"

lemmas ev_list = headerListElements.simps quoted_def

lemma checkIfMatchLoop_elements:
  "checkIfMatchLoop cur v =
     (if Wildcard \<in> set (headerListElements v)
         \<or> (\<exists>e. EntityTag e \<in> set (headerListElements v) \<and> etagStrongMatch e cur)
      then condTrue else condFalse)"
proof (induction cur v rule: checkIfMatchLoop.induct)
  case (1 cur v)
  show ?case
  proof (cases "TrimString v = []")
    case True
    then show ?thesis
      by (subst checkIfMatchLoop.simps, subst (1 2) headerListElements.simps) simp
  next
    case ne: False
    show ?thesis
    proof (cases "hd (TrimString v) = CHR '',''")
      case True
      with ne "1.IH"(1) show ?thesis
        by (subst checkIfMatchLoop.simps, subst (1 2) headerListElements.simps) simp
    next
      case nc: False
      show ?thesis
      proof (cases "hd (TrimString v) = CHR ''*''")
        case True
        with ne nc show ?thesis
          by (subst checkIfMatchLoop.simps, subst (1 2) headerListElements.simps) simp
      next
        case ns: False
        show ?thesis
        proof (cases "fst (scanETag (TrimString v)) = []")
          case True
          with ne nc ns show ?thesis
            by (subst checkIfMatchLoop.simps, subst (1 2) headerListElements.simps) simp
        next
          case tag: False
          show ?thesis
          proof (cases "etagStrongMatch (fst (scanETag (TrimString v))) cur")
            case True
            with ne nc ns tag show ?thesis
              by (subst checkIfMatchLoop.simps, subst (1 2) headerListElements.simps) auto
          next
            case False
            with ne nc ns tag "1.IH"(2) show ?thesis
              by (subst checkIfMatchLoop.simps, subst (1 2) headerListElements.simps) auto
          qed
        qed
      qed
    qed
  qed
qed

lemma serveContent_done:
  assumes "checkPreconditions env (serveContent_headers env w r name modtime) r modtime
      = (w3, True, rr)"
  shows "serveContent env w r name modtime sizeFunc content = w3"
  using assms by (simp add: serveContent_def)

text \<open>
  Claim C1, as amended. For every request whose \<^verbatim>\<open>If-Match\<close> header
  has a value that is not empty, lists no element beginning with \<^verbatim>\<open>*\<close>
  and lists no entity tag that strong-matches the current \<^verbatim>\<open>ETag\<close>
  of the response, \<^verbatim>\<open>checkIfMatch\<close> fails, \<^verbatim>\<open>checkPreconditions\<close>
  writes status 412 and reports the response as done, and
  \<^verbatim>\<open>serveContent\<close> returns with nothing but that status: for every
  method, and whatever the \<^verbatim>\<open>Range\<close> header and the other headers of
  the request are.
\<close>

theorem ifMatch_failed_412:
  assumes present: "Header_Get (r_Header r) ''If-Match'' \<noteq> []"
    and nostar: "Wildcard \<notin> set (headerListElements (Header_Get (r_Header r) ''If-Match''))"
    and nomatch: "\<forall>e. EntityTag e \<in> set (headerListElements (Header_Get (r_Header r) ''If-Match''))
        \<longrightarrow> \<not> etagStrongMatch e (Header_Get (w_Header w) ''Etag'')"
  shows "checkIfMatch w r = condFalse
    \<and> checkPreconditions env w r modtime = (WriteHeader w 412, True, [])
    \<and> serveContent env w r name modtime sizeFunc content
        = WriteHeader (serveContent_headers env w r name modtime) 412
    \<and> (w_status w = None \<longrightarrow>
         w_status (serveContent env w r name modtime sizeFunc content) = Some 412
         \<and> w_body (serveContent env w r name modtime sizeFunc content) = w_body w)"
proof -
  have m: "checkIfMatch w' r = condFalse"
    if "Header_Get (w_Header w') ''Etag'' = Header_Get (w_Header w) ''Etag''" for w'
    using present nostar nomatch that
    by (auto simp: checkIfMatch_def Let_def checkIfMatchLoop_elements)
  have p: "checkPreconditions env w' r modtime = (WriteHeader w' 412, True, [])"
    if "Header_Get (w_Header w') ''Etag'' = Header_Get (w_Header w) ''Etag''" for w'
    using m [OF that] by (simp add: checkPreconditions_def Let_def)
  have e: "Header_Get (w_Header (serveContent_headers env w r name modtime)) ''Etag''
      = Header_Get (w_Header w) ''Etag''"
    by simp
  have s: "serveContent env w r name modtime sizeFunc content
      = WriteHeader (serveContent_headers env w r name modtime) 412"
    by (rule serveContent_done [OF p [OF e]])
  show ?thesis
    using m [of w] p [of w] by (simp add: s)
qed

theorem ifMatch_failed_412_witness:
  "checkPreconditions testEnv (setHeader newResponse ''Etag'' (quoted ''y''))
      (newRequest ''PUT'' ''/a.txt'' [(''If-Match'', quoted ''x''), (''Range'', ''bytes=0-1'')])
      sampleTime
    = (WriteHeader (setHeader newResponse ''Etag'' (quoted ''y'')) 412, True, [])
   \<and> w_status (serveContent testEnv (setHeader newResponse ''Etag'' (quoted ''y''))
        (newRequest ''PUT'' ''/a.txt'' [(''If-Match'', quoted ''x''), (''Range'', ''bytes=0-1'')])
        ''a.txt'' sampleTime (Inr 10) sampleContent) = Some 412"
proof -
  let ?r = "newRequest ''PUT'' ''/a.txt'' [(''If-Match'', quoted ''x''), (''Range'', ''bytes=0-1'')]"
  let ?w = "setHeader newResponse ''Etag'' (quoted ''y'')"
  have v: "Header_Get (r_Header ?r) ''If-Match'' = quoted ''x''"
    by (simp add: ev_http)
  have l: "headerListElements (quoted ''x'') = [EntityTag (quoted ''x'')]"
    by (simp add: ev_list ev_cond ev_str)
  have e: "Header_Get (w_Header ?w) ''Etag'' = quoted ''y''"
    by simp
  have 1: "Header_Get (r_Header ?r) ''If-Match'' \<noteq> []"
    unfolding v by (simp add: quoted_def)
  have 2: "Wildcard \<notin> set (headerListElements (Header_Get (r_Header ?r) ''If-Match''))"
    by (simp add: v l)
  have 3: "\<forall>e. EntityTag e \<in> set (headerListElements (Header_Get (r_Header ?r) ''If-Match''))
        \<longrightarrow> \<not> etagStrongMatch e (Header_Get (w_Header ?w) ''Etag'')"
    unfolding v l e by (simp add: etagStrongMatch_def quoted_def)
  from ifMatch_failed_412 [OF 1 2 3, of testEnv sampleTime "''a.txt''" "Inr 10" sampleContent]
  show ?thesis
    by (simp add: newResponse_def)
qed

text \<open>
  The claim as the specification states it fails: a value that is not
  \<^verbatim>\<open>*\<close> and lists no matching entity tag, but lists \<^verbatim>\<open>*\<close> after
  an entity tag, satisfies the precondition, and the resource is served.
\<close>

theorem ifMatch_wildcard_counterexample:
  "Header_Get (r_Header (newRequest ''GET'' ''/a.txt'' [(''If-Match'', quoted ''x'' @ '', *'')]))
      ''If-Match'' \<noteq> ''*''
   \<and> headerListElements (quoted ''x'' @ '', *'') = [EntityTag (quoted ''x''), Wildcard]
   \<and> \<not> etagStrongMatch (quoted ''x'') (quoted ''y'')
   \<and> checkIfMatch (setHeader newResponse ''Etag'' (quoted ''y''))
        (newRequest ''GET'' ''/a.txt'' [(''If-Match'', quoted ''x'' @ '', *'')]) = condTrue
   \<and> w_status (serveContent testEnv (setHeader newResponse ''Etag'' (quoted ''y''))
        (newRequest ''GET'' ''/a.txt'' [(''If-Match'', quoted ''x'' @ '', *'')])
        ''a.txt'' sampleTime (Inr 10) sampleContent) = Some 200"
  by (simp add: ev_serve ev_range ev_cond ev_time ev_http ev_str ev_fix ev_list)

text \<open>The request without the headers of the given names.\<close>

definition withoutHeaders :: "Request \<Rightarrow> string list \<Rightarrow> Request" where
  "withoutHeaders r keys = r\<lparr>r_Header := (\<lambda>k. if k \<in> set keys then None else r_Header r k)\<rparr>"

lemma isZeroTime_conds:
  assumes "isZeroTime modtime"
  shows "setLastModified env w modtime = w"
    and "checkIfModifiedSince env r modtime = condNone"
    and "checkIfUnmodifiedSince env r modtime = condNone"
  using assms
  by (simp_all add: setLastModified_def checkIfModifiedSince_def checkIfUnmodifiedSince_def Let_def)

lemma withoutHeaders_Get:
  "k \<notin> set keys \<Longrightarrow> Header_Get (r_Header (withoutHeaders r keys)) k = Header_Get (r_Header r) k"
  "r_Method (withoutHeaders r keys) = r_Method r"
  by (simp_all add: withoutHeaders_def Header_Get_def)

text \<open>
  Claim C10, as amended. A modification time equal to the Unix epoch instant
  (Unix seconds 0 and no sub-second part) is treated like the zero time by
  \<^verbatim>\<open>setLastModified\<close>, which sets no header, and by
  \<^verbatim>\<open>checkIfModifiedSince\<close> and \<^verbatim>\<open>checkIfUnmodifiedSince\<close>, which
  return \<^verbatim>\<open>condNone\<close>. So the two time headers cannot change the outcome
  of \<^verbatim>\<open>checkPreconditions\<close>, which is the outcome for the request
  without them, and without \<^verbatim>\<open>If-Match\<close> and \<^verbatim>\<open>If-None-Match\<close>
  headers no status 304 or 412 is written. \<^verbatim>\<open>checkIfRange\<close> does not
  treat the two times alike: for an \<^verbatim>\<open>If-Range\<close> value that starts with
  no entity tag and is a date of Unix second 0, it returns
  \<^verbatim>\<open>condTrue\<close> for the epoch and \<^verbatim>\<open>condFalse\<close> for the zero time.
\<close>

theorem epoch_modtime_unusable:
  assumes "Time_Equal modtime unixEpochTime \<or> Time_IsZero modtime"
  shows "setLastModified env w modtime = w
    \<and> checkIfModifiedSince env r modtime = condNone
    \<and> checkIfUnmodifiedSince env r modtime = condNone
    \<and> checkPreconditions env w r modtime =
        checkPreconditions env w
          (withoutHeaders r [''If-Modified-Since'', ''If-Unmodified-Since'']) modtime
    \<and> (Header_Get (r_Header r) ''If-Match'' = [] \<and> Header_Get (r_Header r) ''If-None-Match'' = []
        \<longrightarrow> fst (checkPreconditions env w r modtime) = w
          \<and> \<not> fst (snd (checkPreconditions env w r modtime)))
    \<and> ((r_Method r = ''GET'' \<or> r_Method r = ''HEAD'')
        \<and> Header_Get (r_Header r) ''If-Range'' \<noteq> []
        \<and> fst (scanETag (Header_Get (r_Header r) ''If-Range'')) = []
        \<and> ParseTime env (Header_Get (r_Header r) ''If-Range'') = Some t \<and> Time_Unix t = 0
        \<longrightarrow> checkIfRange env w r modtime
              = (if Time_IsZero modtime then condFalse else condTrue))"
proof -
  let ?r' = "withoutHeaders r [''If-Modified-Since'', ''If-Unmodified-Since'']"
  from assms have z: "isZeroTime modtime"
    by (auto simp: isZeroTime_def)
  note c = isZeroTime_conds [OF z]
  have g: "Header_Get (r_Header ?r') k = Header_Get (r_Header r) k"
    if "k \<noteq> ''If-Modified-Since''" "k \<noteq> ''If-Unmodified-Since''" for k
    using that by (intro withoutHeaders_Get) simp
  have same: "checkIfMatch w ?r' = checkIfMatch w r" "checkIfNoneMatch w ?r' = checkIfNoneMatch w r"
    "checkIfRange env w ?r' modtime = checkIfRange env w r modtime"
    by (simp_all add: checkIfMatch_def checkIfNoneMatch_def checkIfRange_def g withoutHeaders_Get(2))
  have eq: "checkPreconditions env w r modtime = checkPreconditions env w ?r' modtime"
    by (simp add: checkPreconditions_def c same g withoutHeaders_Get(2) Let_def)
  have pass: "fst (checkPreconditions env w r modtime) = w
      \<and> \<not> fst (snd (checkPreconditions env w r modtime))"
    if "Header_Get (r_Header r) ''If-Match'' = [] \<and> Header_Get (r_Header r) ''If-None-Match'' = []"
    using that by (simp add: checkPreconditions_def c checkIfMatch_def checkIfNoneMatch_def Let_def)
  have ir: "checkIfRange env w r modtime = (if Time_IsZero modtime then condFalse else condTrue)"
    if "(r_Method r = ''GET'' \<or> r_Method r = ''HEAD'')
        \<and> Header_Get (r_Header r) ''If-Range'' \<noteq> []
        \<and> fst (scanETag (Header_Get (r_Header r) ''If-Range'')) = []
        \<and> ParseTime env (Header_Get (r_Header r) ''If-Range'') = Some t \<and> Time_Unix t = 0"
    using that assms
    by (auto simp: checkIfRange_def Let_def Time_Equal_def Time_Unix_def Time_IsZero_def
        unixEpochTime_def)
  from c eq pass ir show ?thesis
    by blast
qed

theorem epoch_modtime_unusable_witness:
  "setLastModified testEnv newResponse unixEpochTime = newResponse
   \<and> checkIfModifiedSince testEnv
        (newRequest ''GET'' ''/a.txt'' [(''If-Modified-Since'', ''Sat, 01 Jan 2000 00:00:00 GMT'')])
        unixEpochTime = condNone
   \<and> \<not> fst (snd (checkPreconditions testEnv newResponse
        (newRequest ''GET'' ''/a.txt'' [(''If-Modified-Since'', ''Sat, 01 Jan 2000 00:00:00 GMT'')])
        unixEpochTime))
   \<and> fst (snd (checkPreconditions testEnv newResponse
        (newRequest ''GET'' ''/a.txt'' [(''If-Modified-Since'', ''Sat, 01 Jan 2000 00:00:00 GMT'')])
        \<lparr>t_sec = 1, t_nsec = 0\<rparr>))
   \<and> checkIfRange testEnv newResponse
        (newRequest ''GET'' ''/a.txt'' [(''If-Range'', ''Thu, 01 Jan 1970 00:00:00 GMT'')])
        unixEpochTime = condTrue
   \<and> checkIfRange testEnv newResponse
        (newRequest ''GET'' ''/a.txt'' [(''If-Range'', ''Thu, 01 Jan 1970 00:00:00 GMT'')])
        zeroTime = condFalse"
proof -
  let ?r = "newRequest ''GET'' ''/a.txt'' [(''If-Modified-Since'', ''Sat, 01 Jan 2000 00:00:00 GMT'')]"
  let ?q = "newRequest ''GET'' ''/a.txt'' [(''If-Range'', ''Thu, 01 Jan 1970 00:00:00 GMT'')]"
  have e: "Time_Equal unixEpochTime unixEpochTime \<or> Time_IsZero unixEpochTime"
    by (simp add: Time_Equal_def)
  have e0: "Time_Equal zeroTime unixEpochTime \<or> Time_IsZero zeroTime"
    by (simp add: Time_IsZero_def zeroTime_def)
  have h: "Header_Get (r_Header ?r) ''If-Match'' = [] \<and> Header_Get (r_Header ?r) ''If-None-Match'' = []"
    by (simp add: ev_http)
  have later: "fst (snd (checkPreconditions testEnv newResponse ?r \<lparr>t_sec = 1, t_nsec = 0\<rparr>))"
    by (simp add: ev_cond ev_time ev_http)
  have q: "(r_Method ?q = ''GET'' \<or> r_Method ?q = ''HEAD'')
        \<and> Header_Get (r_Header ?q) ''If-Range'' \<noteq> []
        \<and> fst (scanETag (Header_Get (r_Header ?q) ''If-Range'')) = []
        \<and> ParseTime testEnv (Header_Get (r_Header ?q) ''If-Range'') = Some \<lparr>t_sec = 0, t_nsec = 0\<rparr>
        \<and> Time_Unix \<lparr>t_sec = 0, t_nsec = 0\<rparr> = 0"
    by (simp add: ev_http ev_cond ev_str ev_time)
  have z: "\<not> Time_IsZero unixEpochTime" "Time_IsZero zeroTime"
    by (simp_all add: ev_time zeroTime_def)
  note t = epoch_modtime_unusable [OF e, where env = testEnv and w = newResponse and r = ?r]
  note u = epoch_modtime_unusable [OF e, where env = testEnv and w = newResponse and r = ?q
      and t = "\<lparr>t_sec = 0, t_nsec = 0\<rparr>"]
  note v = epoch_modtime_unusable [OF e0, where env = testEnv and w = newResponse and r = ?q
      and t = "\<lparr>t_sec = 0, t_nsec = 0\<rparr>"]
  from t have a: "setLastModified testEnv newResponse unixEpochTime = newResponse"
    and b: "checkIfModifiedSince testEnv ?r unixEpochTime = condNone"
    by blast+
  from t h have c: "\<not> fst (snd (checkPreconditions testEnv newResponse ?r unixEpochTime))"
    by blast
  from u q z have d: "checkIfRange testEnv newResponse ?q unixEpochTime = condTrue"
    by simp
  from v q z have f: "checkIfRange testEnv newResponse ?q zeroTime = condFalse"
    by simp
  from a b c later d f show ?thesis
    by blast
qed

text \<open>
  The claim as the specification states it fails in two ways. The epoch is
  not treated like the zero time throughout: with \<^verbatim>\<open>If-Range\<close> set to
  the date of the epoch, the range is served (status 206) for a modification
  time at the epoch, and dropped (status 200) for the zero time. And Unix
  seconds 0 alone do not make a modification time unspecified: at one
  nanosecond past the epoch the \<^verbatim>\<open>Last-Modified\<close> header is set and
  \<^verbatim>\<open>If-Modified-Since\<close> gives status 304.
\<close>

theorem epoch_modtime_counterexample:
  "checkIfRange testEnv newResponse
      (newRequest ''GET'' ''/a.txt''
         [(''If-Range'', ''Thu, 01 Jan 1970 00:00:00 GMT''), (''Range'', ''bytes=2-3'')])
      unixEpochTime = condTrue
   \<and> checkIfRange testEnv newResponse
      (newRequest ''GET'' ''/a.txt''
         [(''If-Range'', ''Thu, 01 Jan 1970 00:00:00 GMT''), (''Range'', ''bytes=2-3'')])
      zeroTime = condFalse
   \<and> w_status (serveContent testEnv newResponse
        (newRequest ''GET'' ''/a.txt''
           [(''If-Range'', ''Thu, 01 Jan 1970 00:00:00 GMT''), (''Range'', ''bytes=2-3'')])
        ''a.txt'' unixEpochTime (Inr 10) sampleContent) = Some 206
   \<and> w_body (serveContent testEnv newResponse
        (newRequest ''GET'' ''/a.txt''
           [(''If-Range'', ''Thu, 01 Jan 1970 00:00:00 GMT''), (''Range'', ''bytes=2-3'')])
        ''a.txt'' unixEpochTime (Inr 10) sampleContent) = ''23''
   \<and> w_status (serveContent testEnv newResponse
        (newRequest ''GET'' ''/a.txt''
           [(''If-Range'', ''Thu, 01 Jan 1970 00:00:00 GMT''), (''Range'', ''bytes=2-3'')])
        ''a.txt'' zeroTime (Inr 10) sampleContent) = Some 200
   \<and> w_body (serveContent testEnv newResponse
        (newRequest ''GET'' ''/a.txt''
           [(''If-Range'', ''Thu, 01 Jan 1970 00:00:00 GMT''), (''Range'', ''bytes=2-3'')])
        ''a.txt'' zeroTime (Inr 10) sampleContent) = ''0123456789''
   \<and> Time_Unix \<lparr>t_sec = 0, t_nsec = 1\<rparr> = 0
   \<and> \<not> isZeroTime \<lparr>t_sec = 0, t_nsec = 1\<rparr>
   \<and> Header_Get (w_Header (setLastModified testEnv newResponse \<lparr>t_sec = 0, t_nsec = 1\<rparr>))
        ''Last-Modified'' = ''Thu, 01 Jan 1970 00:00:00 GMT''
   \<and> checkIfModifiedSince testEnv
        (newRequest ''GET'' ''/a.txt'' [(''If-Modified-Since'', ''Thu, 01 Jan 1970 00:00:00 GMT'')])
        \<lparr>t_sec = 0, t_nsec = 1\<rparr> = condFalse
   \<and> w_status (serveContent testEnv newResponse
        (newRequest ''GET'' ''/a.txt'' [(''If-Modified-Since'', ''Thu, 01 Jan 1970 00:00:00 GMT'')])
        ''a.txt'' \<lparr>t_sec = 0, t_nsec = 1\<rparr> (Inr 10) sampleContent) = Some 304"
  by (simp add: ev_serve ev_range ev_cond ev_time ev_http ev_str ev_fix zeroTime_def)

lemma checkIfRange_false:
  assumes getOrHead: "r_Method r = ''GET'' \<or> r_Method r = ''HEAD''"
    and present: "Header_Get (r_Header r) ''If-Range'' \<noteq> []"
    and etag: "fst (scanETag (Header_Get (r_Header r) ''If-Range'')) \<noteq> [] \<longrightarrow>
        \<not> etagStrongMatch (fst (scanETag (Header_Get (r_Header r) ''If-Range'')))
            (Header_Get (w_Header w) ''Etag'')"
    and date: "fst (scanETag (Header_Get (r_Header r) ''If-Range'')) = [] \<longrightarrow>
        Time_IsZero modtime
        \<or> (\<forall>t. ParseTime env (Header_Get (r_Header r) ''If-Range'') = Some t
              \<longrightarrow> Time_Unix t \<noteq> Time_Unix modtime)"
  shows "checkIfRange env w r modtime = condFalse"
  using assms by (auto simp: checkIfRange_def Let_def split: option.splits)

text \<open>
  Claim C9, as amended. On a GET or HEAD request with an \<^verbatim>\<open>If-Range\<close>
  header whose value is not empty: if the value starts with an entity tag
  that does not strong-match the current \<^verbatim>\<open>ETag\<close>, or starts with no
  entity tag and the modification time is the zero time or the value is no
  date of the same Unix second as the modification time (an unparseable value
  included), then \<^verbatim>\<open>checkIfRange\<close> fails; when the other preconditions
  pass, the \<^verbatim>\<open>Range\<close> header is dropped, and when the content type and
  the size are found the fresh response is the full one, with status 200.
\<close>

theorem ifRange_mismatch_full_response:
  assumes getOrHead: "r_Method r = ''GET'' \<or> r_Method r = ''HEAD''"
    and present: "Header_Get (r_Header r) ''If-Range'' \<noteq> []"
    and etag: "fst (scanETag (Header_Get (r_Header r) ''If-Range'')) \<noteq> [] \<longrightarrow>
        \<not> etagStrongMatch (fst (scanETag (Header_Get (r_Header r) ''If-Range'')))
            (Header_Get (w_Header w) ''Etag'')"
    and date: "fst (scanETag (Header_Get (r_Header r) ''If-Range'')) = [] \<longrightarrow>
        Time_IsZero modtime
        \<or> (\<forall>t. ParseTime env (Header_Get (r_Header r) ''If-Range'') = Some t
              \<longrightarrow> Time_Unix t \<noteq> Time_Unix modtime)"
  shows "checkIfRange env w r modtime = condFalse
    \<and> (checkPreconditions env (serveContent_headers env w r name modtime) r modtime
          = (w3, False, rangeReq) \<longrightarrow>
        rangeReq = []
        \<and> (serveContent_ctype env w3 name content = Inr (w4, ctype) \<and> sizeFunc = Inr sz
             \<and> 0 \<le> sz \<and> w_status w = None \<longrightarrow>
            w_status (serveContent env w r name modtime sizeFunc content) = Some 200
            \<and> w_body (serveContent env w r name modtime sizeFunc content) =
                w_body w @ (if r_Method r = ''HEAD'' then []
                            else take (nat sz) (c_data content))))"
proof (intro conjI impI)
  show "checkIfRange env w r modtime = condFalse"
    by (rule checkIfRange_false [OF assms])
next
  let ?h = "serveContent_headers env w r name modtime"
  assume pre: "checkPreconditions env ?h r modtime = (w3, False, rangeReq)"
  have "Header_Get (w_Header ?h) ''Etag'' = Header_Get (w_Header w) ''Etag''"
    by simp
  with etag have "checkIfRange env ?h r modtime = condFalse"
    by (intro checkIfRange_false [OF getOrHead present _ date]) simp
  with pre show none: "rangeReq = []"
    by (auto simp: checkPreconditions_def Let_def split: if_splits condResult.splits)
  assume rest: "serveContent_ctype env w3 name content = Inr (w4, ctype) \<and> sizeFunc = Inr sz
      \<and> 0 \<le> sz \<and> w_status w = None"
  then have ctype: "serveContent_ctype env w3 name content = Inr (w4, ctype)"
    and size: "sizeFunc = Inr sz" "0 \<le> sz" and fresh: "w_status w = None"
    by simp_all
  note w4 = reaches_send_writer [OF pre ctype]
  have fresh4: "w_status w4 = None"
    using fresh by (simp add: w4)
  have c: "(case parseRange rangeReq sz of
            Inr ranges \<Rightarrow> ranges = [] \<or> sumRangesSize ranges > sz
          | Inl err \<Rightarrow> err = errNoOverlap \<and> sz = 0)"
    by (simp add: none parseRange_def)
  from serveContent_send_full(1,2) [OF fresh4 c, of env r ctype content]
  show "w_status (serveContent env w r name modtime sizeFunc content) = Some 200"
    and "w_body (serveContent env w r name modtime sizeFunc content) =
        w_body w @ (if r_Method r = ''HEAD'' then [] else take (nat sz) (c_data content))"
    by (simp_all add: serveContent_reaches_send [OF pre ctype size] w4)
qed

theorem ifRange_mismatch_full_response_witness:
  "checkIfRange testEnv (setHeader newResponse ''Etag'' (quoted ''abc''))
      (newRequest ''GET'' ''/a.txt'' [(''If-Range'', ''yesterday''), (''Range'', ''bytes=2-3'')])
      sampleTime = condFalse
   \<and> w_status (serveContent testEnv (setHeader newResponse ''Etag'' (quoted ''abc''))
        (newRequest ''GET'' ''/a.txt'' [(''If-Range'', ''yesterday''), (''Range'', ''bytes=2-3'')])
        ''a.txt'' sampleTime (Inr 10) sampleContent) = Some 200
   \<and> w_body (serveContent testEnv (setHeader newResponse ''Etag'' (quoted ''abc''))
        (newRequest ''GET'' ''/a.txt'' [(''If-Range'', ''yesterday''), (''Range'', ''bytes=2-3'')])
        ''a.txt'' sampleTime (Inr 10) sampleContent) = ''0123456789''"
proof -
  let ?r = "newRequest ''GET'' ''/a.txt'' [(''If-Range'', ''yesterday''), (''Range'', ''bytes=2-3'')]"
  let ?w = "setHeader newResponse ''Etag'' (quoted ''abc'')"
  let ?h = "serveContent_headers testEnv ?w ?r ''a.txt'' sampleTime"
  have v: "Header_Get (r_Header ?r) ''If-Range'' = ''yesterday''" and m: "r_Method ?r = ''GET''"
    by (simp_all add: ev_http)
  have s: "fst (scanETag ''yesterday'') = []"
    by (simp add: ev_cond ev_str)
  have p: "ParseTime testEnv ''yesterday'' = None"
    by (simp add: testEnv_def)
  have 1: "r_Method ?r = ''GET'' \<or> r_Method ?r = ''HEAD''"
    by (simp add: m)
  have 2: "Header_Get (r_Header ?r) ''If-Range'' \<noteq> []"
    by (simp add: v)
  have 3: "fst (scanETag (Header_Get (r_Header ?r) ''If-Range'')) \<noteq> [] \<longrightarrow>
        \<not> etagStrongMatch (fst (scanETag (Header_Get (r_Header ?r) ''If-Range'')))
            (Header_Get (w_Header ?w) ''Etag'')"
    by (simp add: v s)
  have 4: "fst (scanETag (Header_Get (r_Header ?r) ''If-Range'')) = [] \<longrightarrow>
        Time_IsZero sampleTime
        \<or> (\<forall>t. ParseTime testEnv (Header_Get (r_Header ?r) ''If-Range'') = Some t
              \<longrightarrow> Time_Unix t \<noteq> Time_Unix sampleTime)"
    by (simp add: v p)
  have pre: "checkPreconditions testEnv ?h ?r sampleTime = (?h, False, [])"
    by (simp add: ev_serve ev_cond ev_time ev_http ev_fix ev_str)
  have ct: "serveContent_ctype testEnv ?h ''a.txt'' sampleContent
      = Inr (setHeader ?h ''Content-Type'' ''text/plain; charset=utf-8'', ''text/plain; charset=utf-8'')"
    by (simp add: ev_serve ev_cond ev_time ev_http ev_fix ev_str)
  from ifRange_mismatch_full_response [OF 1 2 3 4, of "''a.txt''" ?h "[]" sampleContent _ _ "Inr 10" 10]
    pre ct
  show ?thesis
    by (simp add: m newResponse_def sampleContent_def)
qed

text \<open>
  The claim as the specification states it fails: a value that is no entity
  tag and no date, but starts with an entity tag that matches, is accepted
  and the range is served.
\<close>

theorem ifRange_trailing_text_counterexample:
  "scanETag (quoted ''abc'' @ ''xyz'') = (quoted ''abc'', ''xyz'')
   \<and> ParseTime testEnv (quoted ''abc'' @ ''xyz'') = None
   \<and> checkIfRange testEnv (setHeader newResponse ''Etag'' (quoted ''abc''))
        (newRequest ''GET'' ''/a.txt''
           [(''If-Range'', quoted ''abc'' @ ''xyz''), (''Range'', ''bytes=2-3'')])
        sampleTime = condTrue
   \<and> w_status (serveContent testEnv (setHeader newResponse ''Etag'' (quoted ''abc''))
        (newRequest ''GET'' ''/a.txt''
           [(''If-Range'', quoted ''abc'' @ ''xyz''), (''Range'', ''bytes=2-3'')])
        ''a.txt'' sampleTime (Inr 10) sampleContent) = Some 206
   \<and> w_body (serveContent testEnv (setHeader newResponse ''Etag'' (quoted ''abc''))
        (newRequest ''GET'' ''/a.txt''
           [(''If-Range'', quoted ''abc'' @ ''xyz''), (''Range'', ''bytes=2-3'')])
        ''a.txt'' sampleTime (Inr 10) sampleContent) = ''23''"
  by (simp add: ev_serve ev_range ev_cond ev_time ev_http ev_str ev_fix ev_list)

section \<open>The dispatcher and paths with dot-dot elements\<close>

lemmas ev_path = Contains.simps containsDotDot_def FieldsFunc_def isSlashRune_def path_Clean_def
  path_Base_def filepath_Split_def
lemmas ev_file = dirList_def toHTTPError_def localRedirect_def serveFile_def ServeFile_def
  ServeHTTP_def TarDir_def ZipDir_def testRoot_def testHost_def thumbnailArgs_def rootedPath_def

text \<open>The status codes that the dispatcher can send.\<close>

definition okStatus :: "nat set" where
  "okStatus = {200, 206, 301, 304, 403, 404, 412, 416, 500}"

lemma Split_fields_no_sep: "\<forall>e \<in> set (Split s c). c \<notin> set e"
  by (induction s) (auto split: list.splits)

lemma Split_not_Nil: "Split s c \<noteq> []"
  by (induction s) (auto split: list.splits)

lemma Split_field_append: "c \<notin> set x \<Longrightarrow> Split (x @ c # rest) c = x # Split rest c"
  by (induction x) (auto split: list.splits)

lemma Split_Join:
  "xs \<noteq> [] \<Longrightarrow> \<forall>e \<in> set xs. c \<notin> set e \<Longrightarrow> Split (Join xs [c]) c = xs"
proof (induction xs "[c]" rule: Join.induct)
  case 1
  then show ?case by simp
next
  case (2 x)
  then show ?case by (simp add: Split_no_sep)
next
  case (3 x y ys)
  then show ?case
    by (simp add: Split_field_append)
qed

lemma cleanElems_rooted:
  assumes "\<forall>e \<in> set out. P e \<and> e \<noteq> ''..''" and "\<forall>e \<in> set es. e \<noteq> ''..'' \<longrightarrow> P e"
  shows "\<forall>e \<in> set (cleanElems True es out). P e \<and> e \<noteq> ''..''"
  using assms
proof (induction es arbitrary: out)
  case Nil
  then show ?case by simp
next
  case (Cons e es)
  have rest: "\<forall>e \<in> set es. e \<noteq> ''..'' \<longrightarrow> P e"
    using Cons.prems(2) by simp
  have tl: "\<forall>e \<in> set (tl out). P e \<and> e \<noteq> ''..''"
    using Cons.prems(1) by (cases out) auto
  consider (skip) "e = [] \<or> e = ''.''" | (up) "e = ''..''"
    | (keep) "e \<noteq> []" "e \<noteq> ''.''" "e \<noteq> ''..''"
    by blast
  then show ?case
  proof cases
    case skip
    then have "cleanElems True (e # es) out = cleanElems True es out"
      by auto
    with Cons.IH [OF Cons.prems(1) rest] show ?thesis
      by simp
  next
    case up
    show ?thesis
    proof (cases "out \<noteq> [] \<and> hd out \<noteq> ''..''")
      case True
      with up have "cleanElems True (e # es) out = cleanElems True es (tl out)"
        by simp
      with Cons.IH [OF tl rest] show ?thesis
        by simp
    next
      case False
      with up have "cleanElems True (e # es) out = cleanElems True es out"
        by auto
      with Cons.IH [OF Cons.prems(1) rest] show ?thesis
        by simp
    qed
  next
    case keep
    then have eq: "cleanElems True (e # es) out = cleanElems True es (e # out)"
      by simp
    have "\<forall>x \<in> set (e # out). P x \<and> x \<noteq> ''..''"
      using Cons.prems keep by simp
    from Cons.IH [OF this rest] show ?thesis
      by (simp only: eq)
  qed
qed

lemma path_Clean_rooted_no_dotdot:
  assumes "p \<noteq> []" and "hd p = CHR ''/''"
  shows "''..'' \<notin> set (Split (path_Clean p) (CHR ''/''))"
proof -
  let ?elems = "cleanElems True (Split p (CHR ''/'')) []"
  have el: "\<forall>e \<in> set ?elems. CHR ''/'' \<notin> set e \<and> e \<noteq> ''..''"
    using Split_fields_no_sep [of p "CHR ''/''"] by (intro cleanElems_rooted) auto
  have pc: "path_Clean p = CHR ''/'' # Join ?elems ''/''"
    using assms by (simp add: path_Clean_def)
  show ?thesis
  proof (cases "?elems = []")
    case True
    then show ?thesis
      by (simp add: pc)
  next
    case False
    with el have "Split (Join ?elems ''/'') (CHR ''/'') = ?elems"
      by (intro Split_Join) auto
    with el show ?thesis
      by (auto simp: pc)
  qed
qed

lemma writeNotModified_status [simp]:
  "w_status (writeNotModified w) = Some (case w_status w of None \<Rightarrow> 304 | Some c \<Rightarrow> c)"
  "w_body (writeNotModified w) = w_body w"
  by (simp_all add: writeNotModified_def Let_def delHeader_def)

lemma checkPreconditions_status:
  assumes "w_status w = None" and "checkPreconditions env w r modtime = (w3, done, rr)"
  shows "if done then w_status w3 = Some 412 \<or> w_status w3 = Some 304 else w3 = w"
  using assms
  by (auto simp: checkPreconditions_def Let_def split: if_splits condResult.splits)

lemma serveContent_ctype_status:
  assumes "w_status w = None" and "serveContent_ctype env w name content = Inl failed"
  shows "w_status failed = Some 500"
  using assms
  by (auto simp: serveContent_ctype_def split: option.splits if_splits sum.splits)

lemma serveContent_status:
  assumes "w_status w = None"
  shows "w_status (serveContent env w r name modtime sizeFunc content)
    \<in> {Some 200, Some 206, Some 304, Some 412, Some 416, Some 500}"
proof -
  let ?h = "serveContent_headers env w r name modtime"
  have fresh: "w_status ?h = None"
    using assms by simp
  obtain w3 fin rr where pre: "checkPreconditions env ?h r modtime = (w3, fin, rr)"
    by (cases "checkPreconditions env ?h r modtime") auto
  note st = checkPreconditions_status [OF fresh pre]
  show ?thesis
  proof (cases fin)
    case True
    with st pre show ?thesis
      by (auto simp: serveContent_def)
  next
    case False
    with st have w3: "w3 = ?h" by simp
    show ?thesis
    proof (cases "serveContent_ctype env w3 name content")
      case (Inl failed)
      from serveContent_ctype_status [OF _ Inl] fresh w3 have "w_status failed = Some 500"
        by simp
      with pre False Inl show ?thesis
        by (simp add: serveContent_def)
    next
      case (Inr p)
      obtain w4 ctype where p: "p = (w4, ctype)"
        by (cases p) auto
      from serveContent_ctype_fields(1) [OF Inr [unfolded p]] fresh w3
      have fresh4: "w_status w4 = None"
        by simp
      show ?thesis
      proof (cases sizeFunc)
        case (Inl msg)
        with pre False Inr p fresh4 show ?thesis
          by (simp add: serveContent_def)
      next
        case sz: (Inr sz)
        from serveContent_send_status [OF fresh4, of env r ctype sz rr content]
        show ?thesis
          using pre False Inr p fresh4 sz by (auto simp: serveContent_def)
      qed
    qed
  qed
qed

lemma http_Error_toHTTPError_status:
  "w_status w = None \<Longrightarrow>
     w_status (http_Error w (fst (toHTTPError err)) (snd (toHTTPError err))) \<in> Some ` okStatus"
  by (simp add: toHTTPError_def okStatus_def)

lemma dirList_status:
  "w_status w = None \<Longrightarrow> w_status (dirList host w r f) \<in> Some ` okStatus"
  by (simp add: dirList_def okStatus_def split: sum.splits)

lemma serveFile_status:
  assumes "w_status w = None" and "serveFile env host w r fs name redirect = Some w'"
  shows "w_status w' \<in> Some ` okStatus"
proof -
  have sc: "w_status (serveContent env w r n t s c) \<in> Some ` okStatus" for n t s c
    using serveContent_status [OF assms(1), of env r n t s c] by (auto simp: okStatus_def)
  have dl: "w_status (dirList host (setLastModified env w t) r f) \<in> Some ` okStatus" for t f
    using assms(1) by (intro dirList_status) simp
  have he: "w_status (http_Error w (fst (toHTTPError err)) (snd (toHTTPError err)))
      \<in> Some ` okStatus" for err
    using assms(1) by (rule http_Error_toHTTPError_status)
  have lr: "w_status (localRedirect w r p) \<in> Some ` okStatus" for p
    using assms(1) by (simp add: localRedirect_def okStatus_def)
  have nm: "w_status (writeNotModified w) \<in> Some ` okStatus"
    using assms(1) by (simp add: okStatus_def)
  from assms(2) show ?thesis
    unfolding serveFile_def
    by (auto split: if_splits sum.splits prod.splits intro: sc dl he lr nm)
qed

lemma TarDir_status:
  "w_status w = None \<Longrightarrow> w_status (TarDir host dirpath w name) = Some 200"
  "w_status w = None \<Longrightarrow> w_status (ZipDir host dirpath w name) = Some 200"
  by (simp_all add: TarDir_def ZipDir_def)

text \<open>
  The fields that \<^verbatim>\<open>strings.FieldsFunc\<close> finds are the segments between
  delimiters, so \<^verbatim>\<open>containsDotDot\<close> holds exactly for the paths with a
  \<^verbatim>\<open>..\<close> segment.
\<close>

lemma SplitFunc_not_Nil: "SplitFunc s f \<noteq> []"
  by (induction s) (auto split: list.splits)

lemma SplitFunc_append: "f c \<Longrightarrow> SplitFunc (a @ c # b) f = SplitFunc a f @ SplitFunc b f"
proof (induction a)
  case Nil
  then show ?case by simp
next
  case (Cons d a)
  then show ?case
    using SplitFunc_not_Nil [of a f] by (cases "SplitFunc a f") auto
qed

lemma SplitFunc_plain: "\<forall>c \<in> set x. \<not> f c \<Longrightarrow> SplitFunc x f = [x]"
  by (induction x) auto

lemma Contains_append: "Contains (a @ sub @ b) sub"
proof (induction a)
  case Nil
  show ?case
  proof (cases "sub @ b")
    case Nil
    then show ?thesis by simp
  next
    case (Cons c cs)
    have "take (length sub) (sub @ b) = sub"
      by simp
    then have "HasPrefix (c # cs) sub"
      unfolding Cons HasPrefix_def .
    then show ?thesis
      by (simp add: Cons)
  qed
next
  case (Cons c a)
  then show ?case by simp
qed

lemma SplitFunc_hd:
  "\<exists>post. s = hd (SplitFunc s f) @ post \<and> (post = [] \<or> f (hd post))"
proof (induction s)
  case Nil
  then show ?case by simp
next
  case (Cons c s)
  show ?case
  proof (cases "f c")
    case True
    then show ?thesis by simp
  next
    case False
    from Cons obtain post where "s = hd (SplitFunc s f) @ post" "post = [] \<or> f (hd post)"
      by blast
    with False SplitFunc_not_Nil [of s f] show ?thesis
      by (cases "SplitFunc s f") auto
  qed
qed

lemma SplitFunc_tl:
  "x \<in> set (tl (SplitFunc s f)) \<Longrightarrow>
     \<exists>pre post. s = pre @ x @ post \<and> pre \<noteq> [] \<and> f (last pre) \<and> (post = [] \<or> f (hd post))"
proof (induction s)
  case Nil
  then show ?case by simp
next
  case (Cons c s)
  show ?case
  proof (cases "f c")
    case True
    with Cons.prems have mem: "x \<in> set (SplitFunc s f)"
      by simp
    show ?thesis
    proof (cases "x = hd (SplitFunc s f)")
      case h: True
      from SplitFunc_hd [of s f] obtain post where "s = x @ post" "post = [] \<or> f (hd post)"
        unfolding h by blast
      with True show ?thesis
        by (intro exI [of _ "[c]"] exI [of _ post]) simp
    next
      case False
      with mem SplitFunc_not_Nil [of s f] have "x \<in> set (tl (SplitFunc s f))"
        by (cases "SplitFunc s f") auto
      from Cons.IH [OF this] obtain pre post where
        "s = pre @ x @ post" "pre \<noteq> []" "f (last pre)" "post = [] \<or> f (hd post)"
        by blast
      then show ?thesis
        by (intro exI [of _ "c # pre"] exI [of _ post]) simp
    qed
  next
    case False
    with Cons.prems SplitFunc_not_Nil [of s f] have "x \<in> set (tl (SplitFunc s f))"
      by (cases "SplitFunc s f") auto
    from Cons.IH [OF this] obtain pre post where
      "s = pre @ x @ post" "pre \<noteq> []" "f (last pre)" "post = [] \<or> f (hd post)"
      by blast
    then show ?thesis
      by (intro exI [of _ "c # pre"] exI [of _ post]) simp
  qed
qed

lemma SplitFunc_member:
  assumes "x \<in> set (SplitFunc s f)"
  shows "\<exists>pre post. s = pre @ x @ post \<and> (pre = [] \<or> f (last pre)) \<and> (post = [] \<or> f (hd post))"
proof (cases "x = hd (SplitFunc s f)")
  case True
  from SplitFunc_hd [of s f] obtain post where "s = x @ post" "post = [] \<or> f (hd post)"
    unfolding True by blast
  then show ?thesis
    by (intro exI [of _ "[]"] exI [of _ post]) simp
next
  case False
  with assms SplitFunc_not_Nil [of s f] have "x \<in> set (tl (SplitFunc s f))"
    by (cases "SplitFunc s f") auto
  from SplitFunc_tl [OF this] show ?thesis
    by blast
qed

lemma SplitFunc_segment:
  assumes "\<forall>c \<in> set x. \<not> f c" and "pre = [] \<or> f (last pre)" and "post = [] \<or> f (hd post)"
  shows "x \<in> set (SplitFunc (pre @ x @ post) f)"
proof -
  have right: "x \<in> set (SplitFunc (x @ post) f)"
  proof (cases post)
    case Nil
    with assms(1) show ?thesis
      by (simp add: SplitFunc_plain)
  next
    case (Cons c post')
    with assms(3) have "f c" by simp
    from SplitFunc_append [of f c x post', OF this] assms(1) Cons show ?thesis
      by (simp add: SplitFunc_plain)
  qed
  show ?thesis
  proof (cases "pre = []")
    case True
    with right show ?thesis by simp
  next
    case False
    then obtain pre' c where pre: "pre = pre' @ [c]"
      by (cases pre rule: rev_cases) auto
    with assms(2) have "f c" by simp
    from SplitFunc_append [of f c pre' "x @ post", OF this] right show ?thesis
      by (simp add: pre)
  qed
qed

lemma containsDotDot_iff: "containsDotDot v \<longleftrightarrow> dotDotSegment v"
proof
  assume "containsDotDot v"
  then have "''..'' \<in> set (SplitFunc v isSlashRune)"
    by (auto simp: containsDotDot_def FieldsFunc_def list_ex_iff split: if_splits)
  from SplitFunc_member [OF this] show "dotDotSegment v"
    by (simp add: dotDotSegment_def)
next
  assume "dotDotSegment v"
  then obtain pre post where v: "v = pre @ ''..'' @ post"
    and b: "pre = [] \<or> isSlashRune (last pre)" "post = [] \<or> isSlashRune (hd post)"
    unfolding dotDotSegment_def by blast
  have "\<forall>c \<in> set ''..''. \<not> isSlashRune c"
    by (simp add: isSlashRune_def)
  from SplitFunc_segment [OF this b] have "''..'' \<in> set (SplitFunc v isSlashRune)"
    by (simp add: v)
  moreover have "Contains v ''..''"
    unfolding v by (rule Contains_append)
  ultimately show "containsDotDot v"
    by (auto simp: containsDotDot_def FieldsFunc_def list_ex_iff)
qed

lemma path_Clean_rooted_hd:
  assumes "p \<noteq> []" and "hd p = CHR ''/''"
  shows "hd (path_Clean p) = CHR ''/''"
  using assms by (simp add: path_Clean_def)

lemma rootedPath_rooted: "rootedPath p \<noteq> [] \<and> hd (rootedPath p) = CHR ''/''"
  by (cases p) (auto simp: rootedPath_def HasPrefix_def)

text \<open>
  Claim C3, as amended. \<^verbatim>\<open>containsDotDot\<close> holds exactly for the paths
  with a \<^verbatim>\<open>..\<close> segment delimited by a slash or a backslash, and
  \<^verbatim>\<open>ServeFile\<close> rejects every request with such a URL path with
  status 400. The dispatcher \<^verbatim>\<open>fileHandler.ServeHTTP\<close> makes no such
  test, whatever the path. With the query \<^verbatim>\<open>thumb=true\<close> it hands the
  URL path as it is to \<^verbatim>\<open>ffmpegthumbnailer\<close> as the input file, and
  the response is that of the library's \<^verbatim>\<open>http.ServeContent\<close> for the
  output of the program, or for the fallback image. Otherwise, when the rooted
  path ends in a slash and the query asks for a tar or a zip archive, it walks
  the directory that \<^verbatim>\<open>path.Clean\<close> of the rooted path names on the
  machine. Otherwise it calls \<^verbatim>\<open>serveFile\<close> on the handler's root with
  \<^verbatim>\<open>path.Clean\<close> of the rooted path as the name. That name starts with
  a slash and has no \<^verbatim>\<open>..\<close> element. Outside the thumbnail branch the
  status of the response on a fresh writer is one of 200, 206, 301, 304, 403,
  404, 412, 416 and 500, never 400.
\<close>

theorem dotdot_handling:
  "containsDotDot (r_Path r) = dotDotSegment (r_Path r)
   \<and> (dotDotSegment (r_Path r) \<longrightarrow>
        ServeFile env host w r name = Some (http_Error w ''invalid URL path'' 400)
        \<and> (w_status w = None \<longrightarrow>
             map_option w_status (ServeFile env host w r name) = Some (Some 400)))
   \<and> (r_Query r ''thumb'' = ''true'' \<longrightarrow>
        ServeHTTP env host root w r =
          Some (http_ServeContent host w r [] (timeNow host)
                  (case execOutput host ''ffmpegthumbnailer'' (thumbnailArgs host (r_Path r)) of
                     None \<Rightarrow> fileImg host
                   | Some body \<Rightarrow> body))
        \<and> r_Path r \<in> set (thumbnailArgs host (r_Path r)))
   \<and> (r_Query r ''thumb'' \<noteq> ''true'' \<and> HasSuffix (rootedPath (r_Path r)) ''/''
        \<and> r_Query r ''archive'' = ''tar'' \<longrightarrow>
        ServeHTTP env host root w r =
          Some (TarDir host (path_Clean (rootedPath (r_Path r))) w
                  (Base env (rootedPath (r_Path r)))))
   \<and> (r_Query r ''thumb'' \<noteq> ''true'' \<and> HasSuffix (rootedPath (r_Path r)) ''/''
        \<and> r_Query r ''archive'' = ''zip'' \<longrightarrow>
        ServeHTTP env host root w r =
          Some (ZipDir host (path_Clean (rootedPath (r_Path r))) w
                  (Base env (rootedPath (r_Path r)))))
   \<and> (r_Query r ''thumb'' \<noteq> ''true''
        \<and> \<not> (HasSuffix (rootedPath (r_Path r)) ''/''
              \<and> (r_Query r ''archive'' = ''tar'' \<or> r_Query r ''archive'' = ''zip'')) \<longrightarrow>
        ServeHTTP env host root w r =
          serveFile env host w (r\<lparr>r_Path := rootedPath (r_Path r)\<rparr>) root
            (path_Clean (rootedPath (r_Path r))) True)
   \<and> hd (path_Clean (rootedPath (r_Path r))) = CHR ''/''
   \<and> ''..'' \<notin> set (Split (path_Clean (rootedPath (r_Path r))) (CHR ''/''))
   \<and> (r_Query r ''thumb'' \<noteq> ''true'' \<and> w_status w = None \<longrightarrow>
        (\<forall>w'. ServeHTTP env host root w r = Some w' \<longrightarrow> w_status w' \<in> Some ` okStatus))
   \<and> 400 \<notin> okStatus"
proof -
  let ?upath = "rootedPath (r_Path r)"
  note rooted = rootedPath_rooted [of "r_Path r"]
  have iff: "containsDotDot (r_Path r) = dotDotSegment (r_Path r)"
    by (rule containsDotDot_iff)
  have sf: "ServeFile env host w r name = Some (http_Error w ''invalid URL path'' 400)
      \<and> (w_status w = None \<longrightarrow>
           map_option w_status (ServeFile env host w r name) = Some (Some 400))"
    if "dotDotSegment (r_Path r)"
    using that by (simp add: ServeFile_def containsDotDot_iff)
  have th: "ServeHTTP env host root w r =
        Some (http_ServeContent host w r [] (timeNow host)
                (case execOutput host ''ffmpegthumbnailer'' (thumbnailArgs host (r_Path r)) of
                   None \<Rightarrow> fileImg host
                 | Some body \<Rightarrow> body))
      \<and> r_Path r \<in> set (thumbnailArgs host (r_Path r))"
    if "r_Query r ''thumb'' = ''true''"
    using that by (simp add: ServeHTTP_def thumbnailArgs_def split: option.splits)
  have tar: "ServeHTTP env host root w r =
        Some (TarDir host (path_Clean ?upath) w (Base env ?upath))"
    if "r_Query r ''thumb'' \<noteq> ''true'' \<and> HasSuffix ?upath ''/''
        \<and> r_Query r ''archive'' = ''tar''"
    using that by (simp add: ServeHTTP_def Let_def rootedPath_def)
  have zip: "ServeHTTP env host root w r =
        Some (ZipDir host (path_Clean ?upath) w (Base env ?upath))"
    if "r_Query r ''thumb'' \<noteq> ''true'' \<and> HasSuffix ?upath ''/''
        \<and> r_Query r ''archive'' = ''zip''"
    using that by (simp add: ServeHTTP_def Let_def rootedPath_def)
  have fl: "ServeHTTP env host root w r =
        serveFile env host w (r\<lparr>r_Path := ?upath\<rparr>) root (path_Clean ?upath) True"
    if "r_Query r ''thumb'' \<noteq> ''true''
        \<and> \<not> (HasSuffix ?upath ''/''
              \<and> (r_Query r ''archive'' = ''tar'' \<or> r_Query r ''archive'' = ''zip''))"
    using that by (auto simp: ServeHTTP_def Let_def rootedPath_def)
  have rt: "hd (path_Clean ?upath) = CHR ''/''"
    using rooted by (intro path_Clean_rooted_hd) simp_all
  have clean: "''..'' \<notin> set (Split (path_Clean ?upath) (CHR ''/''))"
    using rooted by (intro path_Clean_rooted_no_dotdot) simp_all
  have st: "w_status w' \<in> Some ` okStatus"
    if a: "r_Query r ''thumb'' \<noteq> ''true'' \<and> w_status w = None"
      and s: "ServeHTTP env host root w r = Some w'" for w'
  proof -
    from a have fresh: "w_status w = None" by simp
    from s a show ?thesis
      using TarDir_status [OF fresh] serveFile_status [OF fresh]
      by (auto simp: ServeHTTP_def Let_def okStatus_def split: if_splits)
  qed
  have no400: "400 \<notin> okStatus"
    by (simp add: okStatus_def)
  from iff sf th tar zip fl rt clean st no400 show ?thesis
    by blast
qed

theorem dotdot_handling_witness:
  "dotDotSegment ''/a/../b.txt''
   \<and> ServeFile testEnv testHost newResponse (newRequest ''GET'' ''/a/../b.txt'' []) ''b.txt''
       = Some (http_Error newResponse ''invalid URL path'' 400)
   \<and> path_Clean (rootedPath ''/a/../b.txt'') = ''/b.txt''
   \<and> map_option w_status
        (ServeHTTP testEnv testHost testRoot newResponse (newRequest ''GET'' ''/a/../b.txt'' []))
       = Some (Some 200)
   \<and> ServeHTTP testEnv testHost testRoot newResponse
        ((newRequest ''GET'' ''/a/../b.txt'' [])
           \<lparr>r_Query := (\<lambda>k. if k = ''thumb'' then ''true'' else [])\<rparr>)
       = Some (Write newResponse ''png'')
   \<and> map_option w_status
        (ServeHTTP testEnv testHost testRoot newResponse
           ((newRequest ''GET'' ''/a/../'' [])
              \<lparr>r_Query := (\<lambda>k. if k = ''archive'' then ''tar'' else [])\<rparr>))
       = Some (Some 200)
   \<and> map_option w_status
        (ServeHTTP testEnv testHost testRoot newResponse
           ((newRequest ''GET'' ''/a/../'' [])
              \<lparr>r_Query := (\<lambda>k. if k = ''archive'' then ''zip'' else [])\<rparr>))
       = Some (Some 200)"
proof -
  let ?r = "newRequest ''GET'' ''/a/../b.txt'' []"
  let ?t = "?r\<lparr>r_Query := (\<lambda>k. if k = ''thumb'' then ''true'' else [])\<rparr>"
  let ?a = "(newRequest ''GET'' ''/a/../'' [])
      \<lparr>r_Query := (\<lambda>k. if k = ''archive'' then ''tar'' else [])\<rparr>"
  let ?z = "(newRequest ''GET'' ''/a/../'' [])
      \<lparr>r_Query := (\<lambda>k. if k = ''archive'' then ''zip'' else [])\<rparr>"
  have p: "r_Path ?r = ''/a/../b.txt''" "r_Path ?t = ''/a/../b.txt''"
    "r_Path ?a = ''/a/../''" "r_Path ?z = ''/a/../''"
    by (simp_all add: ev_http)
  have d: "dotDotSegment ''/a/../b.txt''"
    unfolding dotDotSegment_def
    by (intro exI [of _ "''/a/''"] exI [of _ "''/b.txt''"]) (simp add: isSlashRune_def)
  have q: "r_Query ?r ''thumb'' \<noteq> ''true''
        \<and> \<not> (HasSuffix (rootedPath (r_Path ?r)) ''/''
              \<and> (r_Query ?r ''archive'' = ''tar'' \<or> r_Query ?r ''archive'' = ''zip''))"
    by (simp add: ev_http)
  have qt: "r_Query ?t ''thumb'' = ''true''"
    by simp
  have qa: "r_Query ?a ''thumb'' \<noteq> ''true'' \<and> HasSuffix (rootedPath (r_Path ?a)) ''/''
        \<and> r_Query ?a ''archive'' = ''tar''"
    by (simp add: p rootedPath_def ev_str)
  have qz: "r_Query ?z ''thumb'' \<noteq> ''true'' \<and> HasSuffix (rootedPath (r_Path ?z)) ''/''
        \<and> r_Query ?z ''archive'' = ''zip''"
    by (simp add: p rootedPath_def ev_str)
  have c: "path_Clean (rootedPath ''/a/../b.txt'') = ''/b.txt''"
    by (simp add: ev_path ev_str rootedPath_def)
  have s: "map_option w_status
      (serveFile testEnv testHost newResponse (?r\<lparr>r_Path := rootedPath ''/a/../b.txt''\<rparr>)
         testRoot ''/b.txt'' True) = Some (Some 200)"
    by (simp add: ev_file ev_serve ev_range ev_cond ev_time ev_http ev_str)
  have e: "execOutput testHost ''ffmpegthumbnailer'' args = None" for args
    by (simp add: testHost_def)
  have fresh: "w_status newResponse = None"
    by (simp add: newResponse_def)
  note t = dotdot_handling [where r = ?r and env = testEnv and host = testHost
      and w = newResponse and name = "''b.txt''" and root = testRoot]
  note u = dotdot_handling [where r = ?t and env = testEnv and host = testHost
      and w = newResponse and name = "''b.txt''" and root = testRoot]
  note v = dotdot_handling [where r = ?a and env = testEnv and host = testHost
      and w = newResponse and name = "''b.txt''" and root = testRoot]
  note x = dotdot_handling [where r = ?z and env = testEnv and host = testHost
      and w = newResponse and name = "''b.txt''" and root = testRoot]
  from t d have 1: "ServeFile testEnv testHost newResponse ?r ''b.txt''
      = Some (http_Error newResponse ''invalid URL path'' 400)"
    unfolding p by blast
  from t q have "ServeHTTP testEnv testHost testRoot newResponse ?r =
      serveFile testEnv testHost newResponse (?r\<lparr>r_Path := rootedPath (r_Path ?r)\<rparr>) testRoot
        (path_Clean (rootedPath (r_Path ?r))) True"
    by blast
  with s have 2: "map_option w_status (ServeHTTP testEnv testHost testRoot newResponse ?r)
      = Some (Some 200)"
    unfolding p by (simp only: c)
  from u qt have "ServeHTTP testEnv testHost testRoot newResponse ?t =
      Some (http_ServeContent testHost newResponse ?t [] (timeNow testHost)
              (case execOutput testHost ''ffmpegthumbnailer'' (thumbnailArgs testHost (r_Path ?t)) of
                 None \<Rightarrow> fileImg testHost
               | Some body \<Rightarrow> body))"
    by blast
  then have 3: "ServeHTTP testEnv testHost testRoot newResponse ?t = Some (Write newResponse ''png'')"
    by (simp add: e) (simp add: testHost_def)
  from v qa have "ServeHTTP testEnv testHost testRoot newResponse ?a =
      Some (TarDir testHost (path_Clean (rootedPath (r_Path ?a))) newResponse
              (Base testEnv (rootedPath (r_Path ?a))))"
    by blast
  with TarDir_status(1) [OF fresh]
  have 4: "map_option w_status (ServeHTTP testEnv testHost testRoot newResponse ?a)
      = Some (Some 200)"
    by simp
  from x qz have "ServeHTTP testEnv testHost testRoot newResponse ?z =
      Some (ZipDir testHost (path_Clean (rootedPath (r_Path ?z))) newResponse
              (Base testEnv (rootedPath (r_Path ?z))))"
    by blast
  with TarDir_status(2) [OF fresh]
  have 5: "map_option w_status (ServeHTTP testEnv testHost testRoot newResponse ?z)
      = Some (Some 200)"
    by simp
  from d 1 c 2 3 4 5 show ?thesis
    by blast
qed

text \<open>
  The claim as the specification states it fails: the dispatcher resolves a
  path with a \<^verbatim>\<open>..\<close> segment and serves the file.
\<close>

theorem dispatcher_dotdot_counterexample:
  "dotDotSegment (r_Path (newRequest ''GET'' ''/a/../b.txt'' []))
   \<and> map_option w_status
        (ServeHTTP testEnv testHost testRoot newResponse (newRequest ''GET'' ''/a/../b.txt'' []))
       = Some (Some 200)
   \<and> map_option w_body
        (ServeHTTP testEnv testHost testRoot newResponse (newRequest ''GET'' ''/a/../b.txt'' []))
       = Some ''0123456789''"
  by (simp add: containsDotDot_iff [symmetric] ev_path ev_file ev_serve ev_range ev_cond ev_time
      ev_http ev_str)

section \<open>Archive export\<close>

lemma zipFile_tarFile: "zipFile = tarFile"
  by (intro ext) (simp add: zipFile_def tarFile_def)

text \<open>
  An archive entry comes from a call of the walk: the call has no error, the
  mode is regular, and name, size and copied bytes are those of the call.
\<close>

definition emittedFrom :: "WalkEntry \<Rightarrow> ArchiveEntry \<Rightarrow> bool" where
  "emittedFrom e a \<longleftrightarrow>
     e_err e = None \<and> e_info e = Inr (True, a_size a) \<and> e_rel e = Inr (a_name a)
       \<and> fst (e_copy e) = a_copied a"

lemma tarFile_cases:
  assumes "tarFile e archive = (archive', err)"
  shows "(archive' = archive)
    \<or> (\<exists>a. archive' = archive @ [a] \<and> emittedFrom e a \<and> (err = None \<longrightarrow> a_copied a = a_size a))"
proof (cases "e_err e = None \<and> (\<exists>sz. e_info e = Inr (True, sz)) \<and> (\<exists>rel. e_rel e = Inr rel)
    \<and> e_open e = None \<and> e_header e = None \<and> e_create e = None")
  case True
  then obtain sz rel where ok: "e_err e = None" "e_info e = Inr (True, sz)" "e_rel e = Inr rel"
    "e_open e = None" "e_header e = None" "e_create e = None"
    by blast
  let ?a = "\<lparr>a_name = rel, a_size = sz, a_copied = fst (e_copy e)\<rparr>"
  from ok assms have "archive' = archive @ [?a]"
    and "err = (if sz \<noteq> fst (e_copy e) then Some (''mismatch of size with '' @ rel)
                else snd (e_copy e))"
    by (simp_all add: tarFile_def)
  moreover have "emittedFrom e ?a"
    using ok by (simp add: emittedFrom_def)
  ultimately have "archive' = archive @ [?a] \<and> emittedFrom e ?a
      \<and> (err = None \<longrightarrow> a_copied ?a = a_size ?a)"
    by (auto split: if_splits)
  then show ?thesis
    by blast
next
  case False
  with assms have "archive' = archive"
    by (auto simp: tarFile_def split: option.splits sum.splits if_splits)
  then show ?thesis ..
qed

lemma WalkDir_tarFile_inv:
  assumes "WalkDir tarFile es archive = (archive', err)"
  shows "\<exists>new. archive' = archive @ new
    \<and> (\<forall>a \<in> set new. \<exists>e \<in> set es. emittedFrom e a)
    \<and> (\<forall>a \<in> set (butlast new). a_copied a = a_size a)
    \<and> (err = None \<longrightarrow> (\<forall>a \<in> set new. a_copied a = a_size a))"
  using assms
proof (induction es arbitrary: archive)
  case Nil
  then show ?case by simp
next
  case (Cons e es)
  obtain arch1 r where call: "tarFile e archive = (arch1, r)"
    by (cases "tarFile e archive") auto
  show ?case
  proof (cases r)
    case (Some msg)
    with Cons.prems call have res: "archive' = arch1" "err = Some msg"
      by simp_all
    from tarFile_cases [OF call] show ?thesis
    proof
      assume "arch1 = archive"
      with res show ?thesis by simp
    next
      assume "\<exists>a. arch1 = archive @ [a] \<and> emittedFrom e a \<and> (r = None \<longrightarrow> a_copied a = a_size a)"
      then obtain a where "arch1 = archive @ [a]" "emittedFrom e a"
        by blast
      with res show ?thesis
        by (intro exI [of _ "[a]"]) simp
    qed
  next
    case None
    with Cons.prems call have rest: "WalkDir tarFile es arch1 = (archive', err)"
      by simp
    from Cons.IH [OF rest] obtain new where new: "archive' = arch1 @ new"
      "\<forall>a \<in> set new. \<exists>e \<in> set es. emittedFrom e a"
      "\<forall>a \<in> set (butlast new). a_copied a = a_size a"
      "err = None \<longrightarrow> (\<forall>a \<in> set new. a_copied a = a_size a)"
      by blast
    from tarFile_cases [OF call] show ?thesis
    proof
      assume "arch1 = archive"
      with new show ?thesis
        by (intro exI [of _ new]) auto
    next
      assume "\<exists>a. arch1 = archive @ [a] \<and> emittedFrom e a \<and> (r = None \<longrightarrow> a_copied a = a_size a)"
      then obtain a where a: "arch1 = archive @ [a]" "emittedFrom e a" "a_copied a = a_size a"
        using None by blast
      have "\<forall>b \<in> set (butlast (a # new)). a_copied b = a_size b"
        using a(3) new(3) by (cases new) auto
      with a new show ?thesis
        by (intro exI [of _ "a # new"]) auto
    qed
  qed
qed

lemma WalkDir_append:
  "WalkDir fn es1 archive = (arch1, None) \<Longrightarrow>
     WalkDir fn (es1 @ es2) archive = WalkDir fn es2 arch1"
proof (induction es1 arbitrary: archive)
  case Nil
  then show ?case by simp
next
  case (Cons e es1)
  then show ?case
    by (cases "fn e archive") (auto split: option.splits)
qed

lemma tarFile_mismatch:
  assumes "e_err e = None" "e_info e = Inr (True, sz)" "e_rel e = Inr rel"
    "e_open e = None" "e_header e = None" "e_create e = None" "fst (e_copy e) \<noteq> sz"
  shows "tarFile e archive =
    (archive @ [\<lparr>a_name = rel, a_size = sz, a_copied = fst (e_copy e)\<rparr>],
     Some (''mismatch of size with '' @ rel))"
  using assms by (simp add: tarFile_def)

text \<open>
  Claim C8. For the walks of \<^verbatim>\<open>TarDir\<close> and \<^verbatim>\<open>ZipDir\<close>: every
  entry of the archive comes from a call for a regular file; the bytes copied
  equal the size in the header for every entry but the last, and for the last
  as well when the walk returns no error; and when the walk reaches a regular
  file whose copy differs in length from the size that \<^verbatim>\<open>Info\<close>
  gave, it returns the mismatch error with that entry as the last one, however
  many entries would follow.
\<close>

theorem archive_regular_and_checked:
  assumes "fn = tarFile \<or> fn = zipFile"
  shows "(WalkDir fn es [] = (archive, err) \<longrightarrow>
       (\<forall>a \<in> set archive. \<exists>e \<in> set es. emittedFrom e a)
       \<and> (\<forall>a \<in> set (butlast archive). a_copied a = a_size a)
       \<and> (err = None \<longrightarrow> (\<forall>a \<in> set archive. a_copied a = a_size a)))
    \<and> (WalkDir fn es1 [] = (arch1, None) \<and> e_err e = None \<and> e_info e = Inr (True, sz)
        \<and> e_rel e = Inr rel \<and> e_open e = None \<and> e_header e = None \<and> e_create e = None
        \<and> fst (e_copy e) \<noteq> sz \<longrightarrow>
       WalkDir fn (es1 @ e # es2) [] =
         (arch1 @ [\<lparr>a_name = rel, a_size = sz, a_copied = fst (e_copy e)\<rparr>],
          Some (''mismatch of size with '' @ rel)))"
proof -
  from assms have fn: "fn = tarFile"
    by (auto simp: zipFile_tarFile)
  show ?thesis
  proof (intro conjI impI)
    assume w: "WalkDir fn es [] = (archive, err)"
    from WalkDir_tarFile_inv [OF w [unfolded fn]]
    show "\<forall>a \<in> set archive. \<exists>e \<in> set es. emittedFrom e a"
      and "\<forall>a \<in> set (butlast archive). a_copied a = a_size a"
      by auto
    assume "err = None"
    with WalkDir_tarFile_inv [OF w [unfolded fn]]
    show "\<forall>a \<in> set archive. a_copied a = a_size a"
      by auto
  next
    assume a: "WalkDir fn es1 [] = (arch1, None) \<and> e_err e = None \<and> e_info e = Inr (True, sz)
        \<and> e_rel e = Inr rel \<and> e_open e = None \<and> e_header e = None \<and> e_create e = None
        \<and> fst (e_copy e) \<noteq> sz"
    then have "WalkDir fn (es1 @ e # es2) [] = WalkDir fn (e # es2) arch1"
      by (intro WalkDir_append) simp
    also have "\<dots> = (arch1 @ [\<lparr>a_name = rel, a_size = sz, a_copied = fst (e_copy e)\<rparr>],
          Some (''mismatch of size with '' @ rel))"
      using a by (simp add: fn tarFile_mismatch)
    finally show "WalkDir fn (es1 @ e # es2) [] =
         (arch1 @ [\<lparr>a_name = rel, a_size = sz, a_copied = fst (e_copy e)\<rparr>],
          Some (''mismatch of size with '' @ rel))" .
  qed
qed

text \<open>The calls of a walk: a directory, then its entries.\<close>

definition walkEntry :: "string \<Rightarrow> bool \<Rightarrow> int \<Rightarrow> int \<Rightarrow> WalkEntry" where
  "walkEntry rel regular sz copied =
     \<lparr>e_path = ''/srv/'' @ rel, e_err = None, e_info = Inr (regular, sz), e_rel = Inr rel,
      e_open = None, e_header = None, e_create = None, e_copy = (copied, None)\<rparr>"

theorem archive_regular_and_checked_witness:
  "WalkDir tarFile
      [walkEntry ''.'' False 4096 0, walkEntry ''f'' True 100 100, walkEntry ''link'' False 1 0] []
     = ([\<lparr>a_name = ''f'', a_size = 100, a_copied = 100\<rparr>], None)
   \<and> WalkDir zipFile
      ([walkEntry ''.'' False 4096 0] @ walkEntry ''f'' True 100 50 # [walkEntry ''g'' True 7 7]) []
     = ([\<lparr>a_name = ''f'', a_size = 100, a_copied = 50\<rparr>], Some ''mismatch of size with f'')"
proof -
  have 1: "WalkDir tarFile
      [walkEntry ''.'' False 4096 0, walkEntry ''f'' True 100 100, walkEntry ''link'' False 1 0] []
     = ([\<lparr>a_name = ''f'', a_size = 100, a_copied = 100\<rparr>], None)"
    by (simp add: tarFile_def walkEntry_def)
  have 2: "WalkDir zipFile [walkEntry ''.'' False 4096 0] [] = ([], None)"
    by (simp add: zipFile_def walkEntry_def)
  have 3: "e_err (walkEntry ''f'' True 100 50) = None \<and> e_info (walkEntry ''f'' True 100 50) = Inr (True, 100)
      \<and> e_rel (walkEntry ''f'' True 100 50) = Inr ''f'' \<and> e_open (walkEntry ''f'' True 100 50) = None
      \<and> e_header (walkEntry ''f'' True 100 50) = None \<and> e_create (walkEntry ''f'' True 100 50) = None
      \<and> fst (e_copy (walkEntry ''f'' True 100 50)) \<noteq> 100
      \<and> fst (e_copy (walkEntry ''f'' True 100 50)) = 50"
    by (simp add: walkEntry_def)
  from archive_regular_and_checked [of zipFile "[]" "[]" None "[walkEntry ''.'' False 4096 0]" "[]"
      "walkEntry ''f'' True 100 50" 100 "''f''" "[walkEntry ''g'' True 7 7]"] 2 3
  have "WalkDir zipFile
      ([walkEntry ''.'' False 4096 0] @ walkEntry ''f'' True 100 50 # [walkEntry ''g'' True 7 7]) []
     = ([\<lparr>a_name = ''f'', a_size = 100, a_copied = 50\<rparr>], Some ''mismatch of size with f'')"
    by simp
  with 1 show ?thesis
    by simp
qed

end
